theory Spec2Isabelle
  imports Complex_Main "HOL-Library.Word"
begin

section \<open>Errors and results\<close>

text \<open>
  Modelled from the spec: the failure values of \<^verbatim>\<open>enum class Error\<close>
  (\<^verbatim>\<open>runtime/core/error.h\<close> is not among the sources), named after the taxonomy of
  section 7 of the specification. \<^verbatim>\<open>Error::Ok\<close> is not one of them: a
  \<^verbatim>\<open>Result<T>\<close> is \<open>error + T\<close> with \<open>Inl\<close> the failure, and a plain
  \<^verbatim>\<open>Error\<close> is a result without a payload, \<open>Inr ()\<close> being \<^verbatim>\<open>Error::Ok\<close>.
\<close>

datatype error =
    AccessorConstructionError
  | ProgramParseError
  | MethodNotFoundError
  | MetadataError
  | MemoryAllocationError
  | MethodMaterializationError
  | InputBindingError
  | ExecutionError
  | OutputRetrievalError

type_synonym 'a Result = "error + 'a"

type_synonym Error = "unit Result"

abbreviation Ok :: Error where
  "Ok \<equiv> Inr ()"

section \<open>The collaborators of the module\<close>

text \<open>
  \<^verbatim>\<open>Module::LoadMode\<close>, the configuration of \<^verbatim>\<open>MmapDataLoader::from\<close> and
  \<^verbatim>\<open>Program::Verification\<close>. The headers that declare them are not among the sources;
  the constructors are the names \<^verbatim>\<open>module.cpp\<close> uses (lines 86-101).
  \<^verbatim>\<open>MmapDataLoader::from(path)\<close> without a configuration (line 96) is the variant
  that locks the pages and fails when locking fails (spec 4.1): \<open>UseMlock\<close>.
\<close>

datatype LoadMode = File | Mmap | MmapUseMlock | MmapUseMlockIgnoreErrors

datatype MlockConfig = NoMlock | UseMlock | UseMlockIgnoreErrors

datatype Verification = Minimal | InternalConsistency

text \<open>
  \<^verbatim>\<open>MethodMeta\<close>, as far as \<^verbatim>\<open>Module::load_method\<close> queries it: the number of
  planned buffers (\<^verbatim>\<open>size_t\<close>) and the size of the buffer at an index
  (\<^verbatim>\<open>Result<int64_t>\<close>, the 64 bits of the value).
\<close>

record MethodMeta =
  num_memory_planned_buffers :: nat
  memory_planned_buffer_size :: "nat \<Rightarrow> 64 word Result"

text \<open>
  A \<^verbatim>\<open>Span<uint8_t>\<close> is the address of its first byte and a length. The only spans
  the module builds point at the data of one of the holder's own planned buffers, so the
  address is the index of that buffer in \<^verbatim>\<open>planned_buffers\<close>. A
  \<^verbatim>\<open>HierarchicalAllocator\<close> is constructed from the array of spans; a
  \<^verbatim>\<open>MemoryManager\<close> from the three allocators.
\<close>

record Span =
  span_data :: nat
  span_size :: nat

type_synonym HierarchicalAllocator = "Span list"

record 'a MemoryManager =
  mm_method_allocator :: 'a
  mm_planned_memory :: HierarchicalAllocator
  mm_temp_allocator :: 'a

text \<open>
  \<^verbatim>\<open>Tensor\<close>, as far as \<^verbatim>\<open>Module::set_output_data_ptr\<close> queries it.
\<close>

record Tensor =
  mutable_data_ptr :: nat
  nbytes :: nat

text \<open>
  The functions of the runtime that \<^verbatim>\<open>module.cpp\<close> calls and that are not among
  the sources are parameters of the model, collected in one record. The type variables
  stand for the classes the module treats as opaque: \<open>'d\<close> a \<^verbatim>\<open>DataLoader\<close>,
  \<open>'p\<close> a \<^verbatim>\<open>Program\<close>, \<open>'m\<close> the state of a \<^verbatim>\<open>Method\<close>, \<open>'v\<close> an
  \<^verbatim>\<open>EValue\<close>, \<open>'a\<close> a \<^verbatim>\<open>MemoryAllocator\<close> and \<open>'t\<close> an
  \<^verbatim>\<open>EventTracer\<close>. A member function that is not \<^verbatim>\<open>const\<close> returns the new
  state of its object next to its result.

  \<^verbatim>\<open>Method::get_outputs(EValue* output_evalues, size_t length)\<close> writes through the
  pointer: its model receives the length and returns the stores it performs, in order,
  each an index into the array and the value stored.
\<close>

record ('d, 'p, 'm, 'v, 'a, 't) Runtime =
  FileDataLoader_from :: "string \<Rightarrow> 'd Result"
  MmapDataLoader_from :: "string \<Rightarrow> MlockConfig \<Rightarrow> 'd Result"
  Program_load :: "'d \<Rightarrow> Verification \<Rightarrow> 'p Result"
  Program_num_methods :: "'p \<Rightarrow> nat"
  Program_get_method_name :: "'p \<Rightarrow> nat \<Rightarrow> string Result"
  Program_method_meta :: "'p \<Rightarrow> string \<Rightarrow> MethodMeta Result"
  Program_load_method :: "'p \<Rightarrow> string \<Rightarrow> 'a MemoryManager \<Rightarrow> 't option \<Rightarrow> 'm Result"
  Method_method_meta :: "'m \<Rightarrow> MethodMeta"
  Method_set_input :: "'v \<Rightarrow> nat \<Rightarrow> 'm \<Rightarrow> Error \<times> 'm"
  Method_execute :: "'m \<Rightarrow> Error \<times> 'm"
  Method_outputs_size :: "'m \<Rightarrow> nat"
  Method_get_outputs :: "nat \<Rightarrow> 'm \<Rightarrow> (Error \<times> (nat \<times> 'v) list) \<times> 'm"
  Method_set_output_data_ptr :: "nat \<Rightarrow> nat \<Rightarrow> nat \<Rightarrow> 'm \<Rightarrow> Error \<times> 'm"
  EValue_default :: 'v

section \<open>The state of a module\<close>

text \<open>
  \<^verbatim>\<open>Module::MethodHolder\<close>. A planned buffer is a \<^verbatim>\<open>std::vector<uint8_t>\<close>.
  The holder's \<^verbatim>\<open>method\<close> member is called \<open>the_method\<close> here.
\<close>

record ('m, 'a) MethodHolder =
  planned_buffers :: "8 word list list"
  planned_spans :: "Span list"
  planned_memory :: "HierarchicalAllocator option"
  memory_manager :: "'a MemoryManager option"
  the_method :: "'m option"

text \<open>
  The calls the claims count. \<open>calls\<close> below is the record of them that the model keeps,
  in the order they were made (the counting stubs of the spec's properties P2 and P3); it
  is not a member of the C++ class and no function of the model reads it.
\<close>

datatype event =
    AccessorConstruct bool
  | ProgramParse bool
  | MetadataLookup string bool
  | BufferAllocate string nat
  | Materialize string bool

record ('d, 'p, 'm, 'a, 't) Module =
  file_path :: string
  load_mode :: LoadMode
  data_loader :: "'d option"
  program :: "'p option"
  memory_allocator :: 'a
  temp_allocator :: 'a
  event_tracer :: "'t option"
  methods :: "string \<rightharpoonup> ('m, 'a) MethodHolder"
  calls :: "event list"

definition record_call ::
  "event \<Rightarrow> ('d, 'p, 'm, 'a, 't) Module \<Rightarrow> ('d, 'p, 'm, 'a, 't) Module" where
  "record_call ev M = M\<lparr>calls := calls M @ [ev]\<rparr>"

subsection \<open>Constructors (lines 38-80)\<close>

text \<open>
  A missing allocator defaults to a fresh \<^verbatim>\<open>MallocMemoryAllocator\<close>; the model takes
  the allocators that result. \<^verbatim>\<open>runtime_init\<close> has no effect on the module. The
  members a constructor does not mention keep their default initializers, which
  \<^verbatim>\<open>module.h\<close> declares (not among the sources): an empty path and, as in the
  upstream header, \<^verbatim>\<open>LoadMode::MmapUseMlock\<close>. A smart pointer that may be null is an
  \<open>option\<close>.
\<close>

definition Module_of_file_path ::
  "string \<Rightarrow> LoadMode \<Rightarrow> 'a \<Rightarrow> 'a \<Rightarrow> 't option \<Rightarrow> ('d, 'p, 'm, 'a, 't) Module" where
  "Module_of_file_path path mode malloc1 malloc2 tracer =
     \<lparr>file_path = path, load_mode = mode, data_loader = None, program = None,
      memory_allocator = malloc1, temp_allocator = malloc2, event_tracer = tracer,
      methods = Map.empty, calls = []\<rparr>"

definition Module_of_data_loader ::
  "'d option \<Rightarrow> 'a \<Rightarrow> 'a \<Rightarrow> 't option \<Rightarrow> ('d, 'p, 'm, 'a, 't) Module" where
  "Module_of_data_loader loader alloc1 alloc2 tracer =
     \<lparr>file_path = [], load_mode = MmapUseMlock, data_loader = loader, program = None,
      memory_allocator = alloc1, temp_allocator = alloc2, event_tracer = tracer,
      methods = Map.empty, calls = []\<rparr>"

definition Module_of_program ::
  "'p option \<Rightarrow> 'a \<Rightarrow> 'a \<Rightarrow> 't option \<Rightarrow> ('d, 'p, 'm, 'a, 't) Module" where
  "Module_of_program prog alloc1 alloc2 tracer =
     \<lparr>file_path = [], load_mode = MmapUseMlock, data_loader = None, program = prog,
      memory_allocator = alloc1, temp_allocator = alloc2, event_tracer = tracer,
      methods = Map.empty, calls = []\<rparr>"

section \<open>Module::load and Module::is_loaded (lines 82-118)\<close>

definition is_loaded :: "('d, 'p, 'm, 'a, 't) Module \<Rightarrow> bool" where
  "is_loaded M = (program M \<noteq> None)"

text \<open>The \<^verbatim>\<open>switch\<close> of lines 85-103.\<close>

definition data_loader_from ::
  "('d, 'p, 'm, 'v, 'a, 't) Runtime \<Rightarrow> string \<Rightarrow> LoadMode \<Rightarrow> 'd Result" where
  "data_loader_from R path mode =
     (case mode of
        File \<Rightarrow> FileDataLoader_from R path
      | Mmap \<Rightarrow> MmapDataLoader_from R path NoMlock
      | MmapUseMlock \<Rightarrow> MmapDataLoader_from R path UseMlock
      | MmapUseMlockIgnoreErrors \<Rightarrow> MmapDataLoader_from R path UseMlockIgnoreErrors)"

text \<open>
  \<^verbatim>\<open>ET_UNWRAP_UNIQUE\<close> returns the error of a failed result from the enclosing
  function before the assignment takes place. After a successful parse the data loader is
  moved into the deleter of \<^verbatim>\<open>program_\<close>, which leaves \<^verbatim>\<open>data_loader_\<close> null.
\<close>

definition load ::
  "('d, 'p, 'm, 'v, 'a, 't) Runtime \<Rightarrow> Verification \<Rightarrow> ('d, 'p, 'm, 'a, 't) Module
    \<Rightarrow> Error \<times> ('d, 'p, 'm, 'a, 't) Module" where
  "load R verification M =
     (if \<not> is_loaded M then
        (case (case data_loader M of
                 None \<Rightarrow>
                   (case data_loader_from R (file_path M) (load_mode M) of
                      Inl e \<Rightarrow> Inl (e, record_call (AccessorConstruct False) M)
                    | Inr d \<Rightarrow>
                        Inr (d, (record_call (AccessorConstruct True) M)\<lparr>data_loader := Some d\<rparr>))
               | Some d \<Rightarrow> Inr (d, M)) of
           Inl (e, M1) \<Rightarrow> (Inl e, M1)
         | Inr (d, M1) \<Rightarrow>
             (case Program_load R d verification of
                Inl e \<Rightarrow> (Inl e, record_call (ProgramParse False) M1)
              | Inr p \<Rightarrow>
                  (Ok, (record_call (ProgramParse True) M1)\<lparr>program := Some p, data_loader := None\<rparr>)))
      else (Ok, M))"

section \<open>Module::method_names (lines 120-130)\<close>

text \<open>
  The loops of \<^verbatim>\<open>module.cpp\<close> count with \<^verbatim>\<open>auto index = 0\<close>, an \<^verbatim>\<open>int\<close>,
  against a \<^verbatim>\<open>size_t\<close> bound. Incrementing the index at \<^verbatim>\<open>INT_MAX\<close> is undefined
  behaviour: the model has no result (\<open>None\<close>) there, as for every call that does not
  return (\<^verbatim>\<open>Result::get\<close> on a failed result aborts, \<^verbatim>\<open>unordered_map::at\<close> on a
  missing key throws).
\<close>

definition INT_MAX :: nat where
  "INT_MAX = 2147483647"

text \<open>
  The default argument of \<^verbatim>\<open>Module::load\<close>, declared in \<^verbatim>\<open>module.h\<close> (not among
  the sources; \<^verbatim>\<open>Program::Verification::Minimal\<close> upstream).
\<close>

definition default_verification :: Verification where
  "default_verification = Minimal"

function method_names_loop ::
  "('d, 'p, 'm, 'v, 'a, 't) Runtime \<Rightarrow> 'p \<Rightarrow> nat \<Rightarrow> nat \<Rightarrow> string set \<Rightarrow> string set option" where
  "method_names_loop R p method_count index result =
     (if index < method_count then
        (case Program_get_method_name R p index of
           Inl e \<Rightarrow> None
         | Inr name \<Rightarrow>
             if index = INT_MAX then None
             else method_names_loop R p method_count (index + 1) (insert name result))
      else Some result)"
  by pat_completeness auto
termination
  by (relation "measure (\<lambda>(R, p, method_count, index, result). method_count - index)") auto

definition method_names ::
  "('d, 'p, 'm, 'v, 'a, 't) Runtime \<Rightarrow> ('d, 'p, 'm, 'a, 't) Module
    \<Rightarrow> (string set Result \<times> ('d, 'p, 'm, 'a, 't) Module) option" where
  "method_names R M =
     (case load R default_verification M of
        (Inl e, M1) \<Rightarrow> Some (Inl e, M1)
      | (Inr u, M1) \<Rightarrow>
          (case program M1 of
             None \<Rightarrow> None
           | Some p \<Rightarrow>
               (case method_names_loop R p (Program_num_methods R p) 0 {} of
                  None \<Rightarrow> None
                | Some result \<Rightarrow> Some (Inr result, M1))))"

section \<open>Module::load_method and Module::is_method_loaded (lines 132-169)\<close>

definition is_method_loaded :: "string \<Rightarrow> ('d, 'p, 'm, 'a, 't) Module \<Rightarrow> bool" where
  "is_method_loaded method_name M = (methods M method_name \<noteq> None)"

text \<open>The default-constructed \<^verbatim>\<open>MethodHolder\<close> of line 136.\<close>

definition MethodHolder_init :: "('m, 'a) MethodHolder" where
  "MethodHolder_init =
     \<lparr>planned_buffers = [], planned_spans = [], planned_memory = None,
      memory_manager = None, the_method = None\<rparr>"

text \<open>
  Lines 147-149. \<^verbatim>\<open>emplace_back(buffer_size)\<close> constructs a
  \<^verbatim>\<open>std::vector<uint8_t>\<close> of \<^verbatim>\<open>size_t(buffer_size)\<close> zero bytes. A negative
  \<^verbatim>\<open>int64_t\<close> converts to a length above \<^verbatim>\<open>max_size()\<close>, for which the constructor
  throws \<^verbatim>\<open>std::length_error\<close>: no result. Exhaustion of the heap is not modelled. The
  span points at the data of the buffer just appended.
\<close>

definition plan_buffer :: "64 word \<Rightarrow> ('m, 'a) MethodHolder \<Rightarrow> ('m, 'a) MethodHolder option" where
  "plan_buffer buffer_size holder =
     (if sint buffer_size < 0 then None
      else
        (let holder1 = holder\<lparr>planned_buffers :=
                planned_buffers holder @ [replicate (unat buffer_size) (0 :: 8 word)]\<rparr>
         in Some (holder1\<lparr>planned_spans := planned_spans holder1 @
              [\<lparr>span_data = length (planned_buffers holder1) - 1,
                span_size = unat buffer_size\<rparr>]\<rparr>)))"

text \<open>The loop of lines 144-150; each allocation is recorded.\<close>

function plan_loop ::
  "string \<Rightarrow> MethodMeta \<Rightarrow> nat \<Rightarrow> nat \<Rightarrow> ('m, 'a) MethodHolder \<times> event list
    \<Rightarrow> (('m, 'a) MethodHolder \<times> event list) option" where
  "plan_loop method_name method_metadata planned_buffersCount index st =
     (if index < planned_buffersCount then
        (case memory_planned_buffer_size method_metadata index of
           Inl e \<Rightarrow> None
         | Inr buffer_size \<Rightarrow>
             (case plan_buffer buffer_size (fst st) of
                None \<Rightarrow> None
              | Some holder \<Rightarrow>
                  if index = INT_MAX then None
                  else plan_loop method_name method_metadata planned_buffersCount (index + 1)
                         (holder, snd st @ [BufferAllocate method_name (unat buffer_size)])))
      else Some st)"
  by pat_completeness auto
termination
  by (relation "measure (\<lambda>(n, meta, planned_buffersCount, index, st). planned_buffersCount - index)")
    auto

text \<open>\<^verbatim>\<open>unordered_map::emplace\<close> inserts only when the key is absent.\<close>

definition emplace :: "'k \<Rightarrow> 'h \<Rightarrow> ('k \<rightharpoonup> 'h) \<Rightarrow> ('k \<rightharpoonup> 'h)" where
  "emplace k h m = (case m k of None \<Rightarrow> m(k \<mapsto> h) | Some h0 \<Rightarrow> m)"

definition load_method ::
  "('d, 'p, 'm, 'v, 'a, 't) Runtime \<Rightarrow> string \<Rightarrow> ('d, 'p, 'm, 'a, 't) Module
    \<Rightarrow> (Error \<times> ('d, 'p, 'm, 'a, 't) Module) option" where
  "load_method R method_name M =
     (if \<not> is_method_loaded method_name M then
        (case load R default_verification M of
           (Inl e, M1) \<Rightarrow> Some (Inl e, M1)
         | (Inr u, M1) \<Rightarrow>
             (case program M1 of
                None \<Rightarrow> None
              | Some p \<Rightarrow>
                  (case Program_method_meta R p method_name of
                     Inl e \<Rightarrow> Some (Inl e, record_call (MetadataLookup method_name False) M1)
                   | Inr method_metadata \<Rightarrow>
                       (case plan_loop method_name method_metadata
                               (num_memory_planned_buffers method_metadata) 0
                               (MethodHolder_init, calls M1 @ [MetadataLookup method_name True]) of
                          None \<Rightarrow> None
                        | Some (holder, evs) \<Rightarrow>
                            (let holder1 = holder\<lparr>planned_memory := Some (planned_spans holder)\<rparr>;
                                 manager = \<lparr>mm_method_allocator = memory_allocator M1,
                                            mm_planned_memory = planned_spans holder,
                                            mm_temp_allocator = temp_allocator M1\<rparr>;
                                 holder2 = holder1\<lparr>memory_manager := Some manager\<rparr>
                             in (case Program_load_method R p method_name manager (event_tracer M1) of
                                   Inl e \<Rightarrow>
                                     Some (Inl e, M1\<lparr>calls := evs @ [Materialize method_name False]\<rparr>)
                                 | Inr m \<Rightarrow>
                                     Some (Ok, M1\<lparr>methods :=
                                                     emplace method_name (holder2\<lparr>the_method := Some m\<rparr>)
                                                       (methods M1),
                                                   calls := evs @ [Materialize method_name True]\<rparr>)))))))
      else Some (Ok, M))"

section \<open>Module::method_meta, Module::execute, Module::set_output_data_ptr (lines 171-200)\<close>

text \<open>
  \<^verbatim>\<open>methods_.at(name).method\<close> is a reference to the method in the cache: what a call
  does to the method is written back to the holder.
\<close>

definition method_at ::
  "string \<Rightarrow> ('d, 'p, 'm, 'a, 't) Module \<Rightarrow> 'm option" where
  "method_at method_name M =
     (case methods M method_name of None \<Rightarrow> None | Some holder \<Rightarrow> the_method holder)"

definition method_update ::
  "string \<Rightarrow> 'm \<Rightarrow> ('d, 'p, 'm, 'a, 't) Module \<Rightarrow> ('d, 'p, 'm, 'a, 't) Module" where
  "method_update method_name m M =
     (case methods M method_name of
        None \<Rightarrow> M
      | Some holder \<Rightarrow> M\<lparr>methods := (methods M)(method_name \<mapsto> holder\<lparr>the_method := Some m\<rparr>)\<rparr>)"

definition method_meta ::
  "('d, 'p, 'm, 'v, 'a, 't) Runtime \<Rightarrow> string \<Rightarrow> ('d, 'p, 'm, 'a, 't) Module
    \<Rightarrow> (MethodMeta Result \<times> ('d, 'p, 'm, 'a, 't) Module) option" where
  "method_meta R method_name M =
     (case load_method R method_name M of
        None \<Rightarrow> None
      | Some (Inl e, M1) \<Rightarrow> Some (Inl e, M1)
      | Some (Inr u, M1) \<Rightarrow>
          (case method_at method_name M1 of
             None \<Rightarrow> None
           | Some m \<Rightarrow> Some (Inr (Method_method_meta R m), M1)))"

text \<open>The loop of lines 182-184.\<close>

function bind_inputs ::
  "('d, 'p, 'm, 'v, 'a, 't) Runtime \<Rightarrow> 'v list \<Rightarrow> nat \<Rightarrow> 'm \<Rightarrow> (Error \<times> 'm) option" where
  "bind_inputs R input index m =
     (if index < length input then
        (case Method_set_input R (input ! index) index m of
           (Inl e, m1) \<Rightarrow> Some (Inl e, m1)
         | (Inr u, m1) \<Rightarrow>
             if index = INT_MAX then None
             else bind_inputs R input (index + 1) m1)
      else Some (Ok, m))"
  by pat_completeness auto
termination
  by (relation "measure (\<lambda>(R, input, index, m). length input - index)") auto

text \<open>
  Lines 188-190: \<^verbatim>\<open>std::vector<EValue> outputs(outputs_size)\<close> holds default-constructed
  values; \<^verbatim>\<open>get_outputs\<close> then stores into it. A store outside the array is undefined
  behaviour: no result.
\<close>

definition apply_stores :: "(nat \<times> 'v) list \<Rightarrow> 'v list \<Rightarrow> 'v list option" where
  "apply_stores stores outputs =
     (if list_all (\<lambda>s. fst s < length outputs) stores
      then Some (fold (\<lambda>s xs. xs[fst s := snd s]) stores outputs)
      else None)"

definition execute ::
  "('d, 'p, 'm, 'v, 'a, 't) Runtime \<Rightarrow> string \<Rightarrow> 'v list \<Rightarrow> ('d, 'p, 'm, 'a, 't) Module
    \<Rightarrow> ('v list Result \<times> ('d, 'p, 'm, 'a, 't) Module) option" where
  "execute R method_name input M =
     (case load_method R method_name M of
        None \<Rightarrow> None
      | Some (Inl e, M1) \<Rightarrow> Some (Inl e, M1)
      | Some (Inr u, M1) \<Rightarrow>
          (case method_at method_name M1 of
             None \<Rightarrow> None
           | Some m0 \<Rightarrow>
               (case bind_inputs R input 0 m0 of
                  None \<Rightarrow> None
                | Some (Inl e, m1) \<Rightarrow> Some (Inl e, method_update method_name m1 M1)
                | Some (Inr u1, m1) \<Rightarrow>
                    (case Method_execute R m1 of
                       (Inl e, m2) \<Rightarrow> Some (Inl e, method_update method_name m2 M1)
                     | (Inr u2, m2) \<Rightarrow>
                         (let outputs_size = Method_outputs_size R m2;
                              outputs = replicate outputs_size (EValue_default R)
                          in (case Method_get_outputs R outputs_size m2 of
                                ((Inl e, stores), m3) \<Rightarrow>
                                  (case apply_stores stores outputs of
                                     None \<Rightarrow> None
                                   | Some outputs1 \<Rightarrow>
                                       Some (Inl e, method_update method_name m3 M1))
                              | ((Inr u3, stores), m3) \<Rightarrow>
                                  (case apply_stores stores outputs of
                                     None \<Rightarrow> None
                                   | Some outputs1 \<Rightarrow>
                                       Some (Inr outputs1, method_update method_name m3 M1))))))))"

definition set_output_data_ptr ::
  "('d, 'p, 'm, 'v, 'a, 't) Runtime \<Rightarrow> Tensor \<Rightarrow> nat \<Rightarrow> ('d, 'p, 'm, 'a, 't) Module
    \<Rightarrow> (Error \<times> ('d, 'p, 'm, 'a, 't) Module) option" where
  "set_output_data_ptr R output_tensor output_index M =
     (case load_method R ''forward'' M of
        None \<Rightarrow> None
      | Some (Inl e, M1) \<Rightarrow> Some (Inl e, M1)
      | Some (Inr u, M1) \<Rightarrow>
          (case method_at ''forward'' M1 of
             None \<Rightarrow> None
           | Some m \<Rightarrow>
               (case Method_set_output_data_ptr R (mutable_data_ptr output_tensor)
                       (nbytes output_tensor) output_index m of
                  (r, m1) \<Rightarrow> Some (r, method_update ''forward'' m1 M1))))"

section \<open>Sequences of calls on one module\<close>

text \<open>
  The public operations of the class, and the state in which a call leaves the module
  (\<open>None\<close> when the call does not return). Every call may meet a different state of the
  world, so each comes with the runtime it runs against.
\<close>

datatype 'v api_call =
    Call_load Verification
  | Call_is_loaded
  | Call_method_names
  | Call_load_method string
  | Call_is_method_loaded string
  | Call_method_meta string
  | Call_execute string "'v list"
  | Call_set_output_data_ptr Tensor nat

fun step ::
  "('d, 'p, 'm, 'v, 'a, 't) Runtime \<Rightarrow> 'v api_call \<Rightarrow> ('d, 'p, 'm, 'a, 't) Module
    \<Rightarrow> ('d, 'p, 'm, 'a, 't) Module option" where
  "step R (Call_load verification) M = Some (snd (load R verification M))"
| "step R Call_is_loaded M = Some M"
| "step R Call_method_names M = map_option snd (method_names R M)"
| "step R (Call_load_method name) M = map_option snd (load_method R name M)"
| "step R (Call_is_method_loaded name) M = Some M"
| "step R (Call_method_meta name) M = map_option snd (method_meta R name M)"
| "step R (Call_execute name input) M = map_option snd (execute R name input M)"
| "step R (Call_set_output_data_ptr output_tensor output_index) M =
     map_option snd (set_output_data_ptr R output_tensor output_index M)"

fun run ::
  "(('d, 'p, 'm, 'v, 'a, 't) Runtime \<times> 'v api_call) list \<Rightarrow> ('d, 'p, 'm, 'a, 't) Module
    \<Rightarrow> ('d, 'p, 'm, 'a, 't) Module option" where
  "run [] M = Some M"
| "run (c # cs) M = (case step (fst c) (snd c) M of None \<Rightarrow> None | Some M1 \<Rightarrow> run cs M1)"

section \<open>Notions the statements use\<close>

text \<open>Counts over the record of calls.\<close>

definition accessors_constructed :: "('d, 'p, 'm, 'a, 't) Module \<Rightarrow> nat" where
  "accessors_constructed M = count_list (calls M) (AccessorConstruct True)"

definition programs_parsed :: "('d, 'p, 'm, 'a, 't) Module \<Rightarrow> nat" where
  "programs_parsed M = count_list (calls M) (ProgramParse True)"

definition holders_created :: "string \<Rightarrow> ('d, 'p, 'm, 'a, 't) Module \<Rightarrow> nat" where
  "holders_created name M = count_list (calls M) (Materialize name True)"

fun load_event :: "event \<Rightarrow> bool" where
  "load_event (AccessorConstruct b) = True"
| "load_event (ProgramParse b) = True"
| "load_event (MetadataLookup n b) = False"
| "load_event (BufferAllocate n k) = False"
| "load_event (Materialize n b) = False"

text \<open>
  The invariant behind the idempotence of \<^verbatim>\<open>load\<close>: a program counted as parsed is
  set, and an accessor counted as constructed is held by the module or by its program.
\<close>

definition load_inv :: "('d, 'p, 'm, 'a, 't) Module \<Rightarrow> bool" where
  "load_inv M =
     (accessors_constructed M \<le> 1 \<and> programs_parsed M \<le> 1 \<and>
      (if program M = None then programs_parsed M = 0 else True) \<and>
      (if program M = None \<and> data_loader M = None then accessors_constructed M = 0 else True))"

text \<open>The invariant of the cache: a holder counted as created for a name is in the cache.\<close>

definition cache_inv :: "('d, 'p, 'm, 'a, 't) Module \<Rightarrow> bool" where
  "cache_inv M =
     (\<forall>name. holders_created name M = (if methods M name = None then 0 else 1))"

text \<open>
  The state of a method after the first \<open>k\<close> calls of \<^verbatim>\<open>set_input\<close> that
  \<^verbatim>\<open>Module::execute\<close> makes for \<open>input\<close>, and whether these \<open>k\<close> calls all returned
  \<^verbatim>\<open>Error::Ok\<close>.
\<close>

definition method_after ::
  "('d, 'p, 'm, 'v, 'a, 't) Runtime \<Rightarrow> 'v list \<Rightarrow> nat \<Rightarrow> 'm \<Rightarrow> 'm" where
  "method_after R input k m =
     fold (\<lambda>i m1. snd (Method_set_input R (input ! i) i m1)) [0..<k] m"

definition binds_ok ::
  "('d, 'p, 'm, 'v, 'a, 't) Runtime \<Rightarrow> 'v list \<Rightarrow> nat \<Rightarrow> 'm \<Rightarrow> bool" where
  "binds_ok R input k m =
     list_all (\<lambda>i. fst (Method_set_input R (input ! i) i (method_after R input i m)) = Ok) [0..<k]"

text \<open>
  What a slot of the output array holds after the stores of \<^verbatim>\<open>get_outputs\<close>: the last
  value stored there, or the default value the vector was constructed with.
\<close>

definition slot_after :: "(nat \<times> 'v) list \<Rightarrow> 'v \<Rightarrow> nat \<Rightarrow> 'v" where
  "slot_after stores d i =
     (case filter (\<lambda>s. fst s = i) stores of [] \<Rightarrow> d | s # ss \<Rightarrow> snd (last (s # ss)))"

text \<open>The memory manager that \<^verbatim>\<open>load_method\<close> assembles from a holder (lines 151-157).\<close>

definition manager_of ::
  "('d, 'p, 'm, 'a, 't) Module \<Rightarrow> ('m, 'a) MethodHolder \<Rightarrow> 'a MemoryManager" where
  "manager_of M holder =
     \<lparr>mm_method_allocator = memory_allocator M, mm_planned_memory = planned_spans holder,
      mm_temp_allocator = temp_allocator M\<rparr>"

section \<open>A runtime to run the module against\<close>

text \<open>
  A small runtime for the concrete runs below, after the spec's properties P6 and P7: one
  file, \<open>model.pte\<close>, whose program has the single method \<open>forward\<close> with two inputs,
  planned buffers of 128 and 256 bytes, and outputs that repeat the inputs. Its method
  rejects an input index outside its two slots and runs with whatever is bound (a slot that
  was never bound reads as 0).
\<close>

record stub_method =
  slots :: "int option list"
  results :: "int list"
  output_ptrs :: "(nat \<times> nat) option list"

definition stub_meta :: MethodMeta where
  "stub_meta =
     \<lparr>num_memory_planned_buffers = 2,
      memory_planned_buffer_size =
        (\<lambda>i. if i = 0 then Inr 128 else if i = 1 then Inr 256 else Inl MetadataError)\<rparr>"

definition stub_runtime :: "(string, string list, stub_method, int, nat, unit) Runtime" where
  "stub_runtime =
     \<lparr>FileDataLoader_from =
        (\<lambda>path. if path = ''model.pte'' then Inr path else Inl AccessorConstructionError),
      MmapDataLoader_from =
        (\<lambda>path config. if path = ''model.pte'' then Inr path else Inl AccessorConstructionError),
      Program_load = (\<lambda>d verification. Inr [''forward'']),
      Program_num_methods = length,
      Program_get_method_name =
        (\<lambda>p i. if i < length p then Inr (p ! i) else Inl MethodNotFoundError),
      Program_method_meta =
        (\<lambda>p name. if name \<in> set p then Inr stub_meta else Inl MethodNotFoundError),
      Program_load_method =
        (\<lambda>p name manager tracer.
           if name \<in> set p \<and> map span_size (mm_planned_memory manager) = [128, 256]
           then Inr \<lparr>slots = [None, None], results = [0, 0], output_ptrs = [None, None]\<rparr>
           else Inl MethodMaterializationError),
      Method_method_meta = (\<lambda>m. stub_meta),
      Method_set_input =
        (\<lambda>v i m. if i < length (slots m) then (Ok, m\<lparr>slots := (slots m)[i := Some v]\<rparr>)
                  else (Inl InputBindingError, m)),
      Method_execute =
        (\<lambda>m. (Ok, m\<lparr>results := map (\<lambda>s. case s of None \<Rightarrow> 0 | Some v \<Rightarrow> v) (slots m)\<rparr>)),
      Method_outputs_size = (\<lambda>m. length (results m)),
      Method_get_outputs =
        (\<lambda>n m. if n < length (results m) then ((Inl OutputRetrievalError, []), m)
                else ((Ok, enumerate 0 (results m)), m)),
      Method_set_output_data_ptr =
        (\<lambda>ptr size i m.
           if i < length (output_ptrs m)
           then (Ok, m\<lparr>output_ptrs := (output_ptrs m)[i := Some (ptr, size)]\<rparr>)
           else (Inl OutputRetrievalError, m)),
      EValue_default = 0\<rparr>"

text \<open>The same runtime while the metadata of the program cannot be read.\<close>

definition broken_runtime :: "(string, string list, stub_method, int, nat, unit) Runtime" where
  "broken_runtime = stub_runtime\<lparr>Program_method_meta := (\<lambda>p name. Inl MetadataError)\<rparr>"

definition stub_module :: "(string, string list, stub_method, nat, unit) Module" where
  "stub_module = Module_of_file_path ''model.pte'' File 0 1 None"

section \<open>The variance kernel (kernels/portable/cpu/op_var.cpp)\<close>

text \<open>
  \<^verbatim>\<open>var_out\<close> works on tensors through helpers that are not among the sources
  (\<^verbatim>\<open>reduce_util.h\<close>, the \<^verbatim>\<open>ET_CHECK\<close> and \<^verbatim>\<open>ET_SWITCH\<close> macros). What they
  return for the arguments of one call is a parameter of the model, together with the
  arithmetic of the element types: \<open>'i\<close> is \<^verbatim>\<open>CTYPE_IN\<close>, \<open>'o\<close> is \<^verbatim>\<open>CTYPE_OUT\<close>,
  \<open>fdiv\<close> divides a \<^verbatim>\<open>CTYPE_OUT\<close> by a \<^verbatim>\<open>size_t\<close>. A failed \<^verbatim>\<open>ET_CHECK\<close>
  aborts, and \<^verbatim>\<open>ET_SWITCH_FLOAT_TYPES\<close> has no case for a type that is not a floating
  point type: no result.
\<close>

type_synonym size_t = "64 word"

record ('i, 'o) VarCall =
  check_preconditions :: bool
  resize_reduction_out :: Error
  in_is_float_type :: bool
  out_is_float_type :: bool
  get_reduced_dim_product :: size_t
  out_numel :: nat
  map_reduce_over_dim_list :: "('i \<Rightarrow> 'o) \<Rightarrow> ('o \<Rightarrow> 'o \<Rightarrow> 'o) \<Rightarrow> nat \<Rightarrow> 'o"
  fcast :: "'i \<Rightarrow> 'o"
  fadd :: "'o \<Rightarrow> 'o \<Rightarrow> 'o"
  fsub :: "'o \<Rightarrow> 'o \<Rightarrow> 'o"
  fmul :: "'o \<Rightarrow> 'o \<Rightarrow> 'o"
  fdiv :: "'o \<Rightarrow> size_t \<Rightarrow> 'o"
  NAN :: 'o

text \<open>
  Lines 64-81, the body of the second loop for one \<open>out_ix\<close>: the value stored in
  \<^verbatim>\<open>out_data[out_ix]\<close>, and next to it the divisors of the divisions performed, in
  order (the model's record of them; the C++ code keeps none).
\<close>

definition var_element ::
  "('i, 'o) VarCall \<Rightarrow> size_t \<Rightarrow> size_t \<Rightarrow> nat \<Rightarrow> 'o \<times> size_t list" where
  "var_element K num denominator out_ix =
     (let sum = map_reduce_over_dim_list K (\<lambda>v. fcast K v) (\<lambda>outv acc. fadd K acc outv) out_ix;
          mean = fdiv K sum num;
          sum2 = map_reduce_over_dim_list K
                   (\<lambda>v. fmul K (fsub K (fcast K v) mean) (fsub K (fcast K v) mean))
                   (\<lambda>outv acc. fadd K acc outv) out_ix
      in (fdiv K sum2 denominator, [num, denominator]))"

text \<open>
  Lines 48-87. The result is the content of \<^verbatim>\<open>out_data\<close> after the call and the
  divisors of all divisions performed. \<^verbatim>\<open>num - 1\<close> is a subtraction of \<^verbatim>\<open>size_t\<close>:
  it wraps around at 0.
\<close>

definition var_out :: "('i, 'o) VarCall \<Rightarrow> bool \<Rightarrow> ('o list \<times> size_t list) option" where
  "var_out K unbiased =
     (if \<not> check_preconditions K then None
      else if resize_reduction_out K \<noteq> Ok then None
      else if \<not> in_is_float_type K \<or> \<not> out_is_float_type K then None
      else
        (let num = get_reduced_dim_product K;
             denominator = (if unbiased then num - 1 else num)
         in if num = 0 \<or> denominator = 0
            then Some (replicate (out_numel K) (NAN K), [])
            else
              (let cells = map (var_element K num denominator) [0..<out_numel K]
               in Some (map fst cells, concat (map snd cells)))))"

text \<open>
  A call to run the kernel on: the elements \<open>xs\<close> reduced over all dimensions into one
  output element, with rational arithmetic extended by a NaN (\<open>None\<close>) for the floating
  point type. \<^verbatim>\<open>map_reduce_over_dim_list\<close> maps the first element and folds the mapped
  rest into it.
\<close>

definition lift2 :: "(rat \<Rightarrow> rat \<Rightarrow> rat) \<Rightarrow> rat option \<Rightarrow> rat option \<Rightarrow> rat option" where
  "lift2 f x y = (case x of None \<Rightarrow> None | Some a \<Rightarrow> (case y of None \<Rightarrow> None | Some b \<Rightarrow> Some (f a b)))"

definition stub_var_call :: "int list \<Rightarrow> (int, rat option) VarCall" where
  "stub_var_call xs =
     \<lparr>check_preconditions = True,
      resize_reduction_out = Ok,
      in_is_float_type = True,
      out_is_float_type = True,
      get_reduced_dim_product = of_nat (length xs),
      out_numel = 1,
      map_reduce_over_dim_list =
        (\<lambda>map_fun reduce_fun out_ix.
           case xs of [] \<Rightarrow> None
           | x # rest \<Rightarrow> fold (\<lambda>v acc. reduce_fun (map_fun v) acc) rest (map_fun x)),
      fcast = (\<lambda>v. Some (of_int v)),
      fadd = lift2 (+),
      fsub = lift2 (-),
      fmul = lift2 (*),
      fdiv = (\<lambda>x n. if n = 0 then None else lift2 (/) x (Some (of_nat (unat n)))),
      NAN = None\<rparr>"

declare method_names_loop.simps [simp del]

declare plan_loop.simps [simp del]

declare bind_inputs.simps [simp del]

section \<open>Concrete runs\<close>

text \<open>The definitions a concrete run unfolds.\<close>

lemmas ev = stub_module_def Module_of_file_path_def stub_runtime_def stub_meta_def
  execute_def load_method_def load_def is_loaded_def is_method_loaded_def data_loader_from_def
  record_call_def default_verification_def MethodHolder_init_def plan_buffer_def INT_MAX_def
  emplace_def method_at_def method_update_def apply_stores_def Let_def
  plan_loop.simps bind_inputs.simps accessors_constructed_def programs_parsed_def

lemmas ev2 = ev binds_ok_def method_after_def upt_rec slot_after_def

section \<open>Loading the program\<close>


lemma load_loaded: "is_loaded M \<Longrightarrow> load R v M = (Ok, M)"
  by (simp add: load_def)

lemma load_methods: "methods (snd (load R v M)) = methods M"
  by (simp add: load_def record_call_def split: option.splits sum.splits)

lemma load_Ok_program: "load R v M = (Inr u, M1) \<Longrightarrow> program M1 \<noteq> None"
  by (auto simp: load_def is_loaded_def record_call_def split: option.splits sum.splits if_splits)

lemma load_keeps_program: "program M \<noteq> None \<Longrightarrow> program (snd (load R v M)) = program M"
  by (simp add: load_def is_loaded_def)

lemma plan_loop_log:
  "plan_loop n meta c i st = Some st' \<Longrightarrow> \<exists>ss. snd st' = snd st @ map (BufferAllocate n) ss"
proof (induction n meta c i st rule: plan_loop.induct)
  case (1 n meta c i st)
  show ?case
  proof (cases "i < c")
    case False
    with "1.prems" show ?thesis by (simp add: plan_loop.simps)
  next
    case True
    from True "1.prems" obtain sz h where
      sz: "memory_planned_buffer_size meta i = Inr sz" and
      h: "plan_buffer sz (fst st) = Some h" and
      ni: "i \<noteq> INT_MAX" and
      rec: "plan_loop n meta c (i + 1) (h, snd st @ [BufferAllocate n (unat sz)]) = Some st'"
      by (subst (asm) plan_loop.simps) (auto split: sum.splits option.splits if_splits)
    from "1.IH"[OF True sz h ni rec] obtain ss where
      "snd st' = (snd st @ [BufferAllocate n (unat sz)]) @ map (BufferAllocate n) ss"
      by auto
    then have "snd st' = snd st @ map (BufferAllocate n) (unat sz # ss)" by simp
    then show ?thesis by blast
  qed
qed

lemma load_method_cases [consumes 1, case_names cached load_failed meta_failed materialize_failed loaded]:
  fixes R :: "('d, 'p, 'm, 'v, 'a, 't) Runtime"
  assumes "load_method R n M = Some (r, M')"
  obtains
    (cached) "methods M n \<noteq> None" "r = Ok" "M' = M"
  | (load_failed) e where "methods M n = None" "load R default_verification M = (Inl e, M')" "r = Inl e"
  | (meta_failed) M1 p e where "methods M n = None" "load R default_verification M = (Ok, M1)"
      "program M1 = Some p" "Program_method_meta R p n = Inl e" "r = Inl e"
      "M' = record_call (MetadataLookup n False) M1"
  | (materialize_failed) M1 p meta holder evs e where "methods M n = None"
      "load R default_verification M = (Ok, M1)" "program M1 = Some p"
      "Program_method_meta R p n = Inr meta"
      "plan_loop n meta (num_memory_planned_buffers meta) 0
         (MethodHolder_init, calls M1 @ [MetadataLookup n True]) = Some (holder, evs)"
      "Program_load_method R p n (manager_of M1 holder) (event_tracer M1) = Inl e"
      "r = Inl e" "M' = M1\<lparr>calls := evs @ [Materialize n False]\<rparr>"
  | (loaded) M1 p meta holder evs m where "methods M n = None"
      "load R default_verification M = (Ok, M1)" "program M1 = Some p"
      "Program_method_meta R p n = Inr meta"
      "plan_loop n meta (num_memory_planned_buffers meta) 0
         (MethodHolder_init, calls M1 @ [MetadataLookup n True]) = Some (holder, evs)"
      "Program_load_method R p n (manager_of M1 holder) (event_tracer M1) = Inr m"
      "r = Ok"
      "M' = M1\<lparr>methods := (methods M1)(n \<mapsto>
               holder\<lparr>planned_memory := Some (planned_spans holder),
                      memory_manager := Some (manager_of M1 holder),
                      the_method := Some m\<rparr>),
             calls := evs @ [Materialize n True]\<rparr>"
proof (cases "methods M n")
  case (Some h)
  with assms have "r = Ok" "M' = M" by (auto simp: load_method_def is_method_loaded_def)
  with Some cached show ?thesis by simp
next
  case None
  obtain lr M1 where L: "load R default_verification M = (lr, M1)" by (cases "load R default_verification M")
  have mm: "methods M1 n = None" using load_methods[of R default_verification M] L None by simp
  show ?thesis
  proof (cases lr)
    case (Inl e)
    with assms None L have "r = Inl e" "M' = M1" by (auto simp: load_method_def is_method_loaded_def)
    with None L Inl load_failed show ?thesis by simp
  next
    case (Inr u)
    with L have L': "load R default_verification M = (Ok, M1)" by simp
    from load_Ok_program[OF L'] obtain p where p: "program M1 = Some p" by auto
    show ?thesis
    proof (cases "Program_method_meta R p n")
      case (Inl e)
      with assms None L' p have "r = Inl e" "M' = record_call (MetadataLookup n False) M1"
        by (auto simp: load_method_def is_method_loaded_def)
      with None L' p Inl meta_failed show ?thesis by simp
    next
      case meta: (Inr meta)
      from assms None L' p meta have "plan_loop n meta (num_memory_planned_buffers meta) 0
           (MethodHolder_init :: ('m, 'a) MethodHolder, calls M1 @ [MetadataLookup n True]) \<noteq> None"
        by (auto simp: load_method_def is_method_loaded_def split: option.splits)
      then obtain holder evs where
        pl: "plan_loop n meta (num_memory_planned_buffers meta) 0
           (MethodHolder_init :: ('m, 'a) MethodHolder, calls M1 @ [MetadataLookup n True]) =
           Some (holder, evs)"
        by fastforce
      show ?thesis
      proof (cases "Program_load_method R p n (manager_of M1 holder) (event_tracer M1)")
        case (Inl e)
        with assms None L' p meta pl have "r = Inl e" "M' = M1\<lparr>calls := evs @ [Materialize n False]\<rparr>"
          by (auto simp: load_method_def is_method_loaded_def manager_of_def Let_def)
        with None L' p meta pl Inl materialize_failed show ?thesis by simp
      next
        case (Inr m)
        with assms None L' p meta pl mm have "r = Ok"
          "M' = M1\<lparr>methods := (methods M1)(n \<mapsto>
               holder\<lparr>planned_memory := Some (planned_spans holder),
                      memory_manager := Some (manager_of M1 holder),
                      the_method := Some m\<rparr>),
             calls := evs @ [Materialize n True]\<rparr>"
          by (auto simp: load_method_def is_method_loaded_def manager_of_def Let_def emplace_def)
        with None L' p meta pl Inr loaded show ?thesis by simp
      qed
    qed
  qed
qed


lemma count_list_filter: "P x \<Longrightarrow> count_list (filter P xs) x = count_list xs x"
  by (induction xs) auto

lemma load_inv_eq:
  assumes "program M' = program M1" "data_loader M' = data_loader M1"
    "filter load_event (calls M') = filter load_event (calls M1)"
  shows "load_inv M' = load_inv M1"
proof -
  have "count_list (calls M') (AccessorConstruct True) = count_list (calls M1) (AccessorConstruct True)"
    using count_list_filter[of load_event "AccessorConstruct True" "calls M'"]
      count_list_filter[of load_event "AccessorConstruct True" "calls M1"] assms(3) by simp
  moreover have "count_list (calls M') (ProgramParse True) = count_list (calls M1) (ProgramParse True)"
    using count_list_filter[of load_event "ProgramParse True" "calls M'"]
      count_list_filter[of load_event "ProgramParse True" "calls M1"] assms(3) by simp
  ultimately show ?thesis
    using assms(1,2) by (simp add: load_inv_def accessors_constructed_def programs_parsed_def)
qed

lemma load_inv_load: "load_inv M \<Longrightarrow> load_inv (snd (load R v M))"
  by (auto simp: load_def load_inv_def accessors_constructed_def programs_parsed_def
      is_loaded_def record_call_def split: option.splits sum.splits if_splits)

lemma filter_load_event_plan:
  "filter load_event (xs @ map (BufferAllocate n) ss) = filter load_event xs"
  by (induction ss rule: rev_induct) (auto simp flip: append_assoc)

lemma load_method_frame:
  fixes R :: "('d, 'p, 'm, 'v, 'a, 't) Runtime"
  assumes "load_method R n M = Some (r, M')"
  shows "M' = M \<or>
    (program M' = program (snd (load R default_verification M)) \<and>
     data_loader M' = data_loader (snd (load R default_verification M)) \<and>
     filter load_event (calls M') = filter load_event (calls (snd (load R default_verification M))))"
  using assms
proof (cases rule: load_method_cases)
  case cached
  then show ?thesis by simp
next
  case (load_failed e)
  then show ?thesis by simp
next
  case (meta_failed M1 p e)
  then show ?thesis by (simp add: record_call_def)
next
  case (materialize_failed M1 p meta holder evs e)
  from plan_loop_log[OF materialize_failed(5)] obtain ss where
    "evs = (calls M1 @ [MetadataLookup n True]) @ map (BufferAllocate n) ss" by auto
  then have "filter load_event evs = filter load_event (calls M1)"
    by (simp only: filter_load_event_plan) simp
  with materialize_failed show ?thesis by simp
next
  case (loaded M1 p meta holder evs m)
  from plan_loop_log[OF loaded(5)] obtain ss where
    "evs = (calls M1 @ [MetadataLookup n True]) @ map (BufferAllocate n) ss" by auto
  then have "filter load_event evs = filter load_event (calls M1)"
    by (simp only: filter_load_event_plan) simp
  with loaded show ?thesis by simp
qed

lemma load_method_load_inv:
  assumes "load_method R n M = Some (r, M')" "load_inv M"
  shows "load_inv M'"
  using load_method_frame[OF assms(1)] load_inv_load[OF assms(2), of R default_verification]
    load_inv_eq[of M' "snd (load R default_verification M)"] assms(2)
  by auto

lemma load_method_keeps_program:
  assumes "load_method R n M = Some (r, M')" "program M \<noteq> None"
  shows "program M' = program M"
  using load_method_frame[OF assms(1)] load_keeps_program[OF assms(2), of R default_verification]
  by auto

lemma method_update_frame [simp]:
  "program (method_update n m M) = program M"
  "data_loader (method_update n m M) = data_loader M"
  "calls (method_update n m M) = calls M"
  "(methods (method_update n m M) k = None) = (methods M k = None)"
  by (auto simp: method_update_def split: option.splits)

lemma method_update_load_inv [simp]: "load_inv (method_update n m M) = load_inv M"
  by (rule load_inv_eq) simp_all

lemma execute_frame:
  assumes "execute R n input M = Some (r, M')"
  shows "\<exists>rl M1. load_method R n M = Some (rl, M1) \<and> (M' = M1 \<or> (\<exists>m. M' = method_update n m M1))"
  using assms
  by (auto simp: execute_def Let_def split: option.splits sum.splits prod.splits)

lemma method_meta_frame:
  assumes "method_meta R n M = Some (r, M')"
  shows "\<exists>rl. load_method R n M = Some (rl, M')"
  using assms
  by (auto simp: method_meta_def split: option.splits sum.splits prod.splits)

lemma set_output_data_ptr_frame:
  assumes "set_output_data_ptr R tensor ix M = Some (r, M')"
  shows "\<exists>rl M1. load_method R ''forward'' M = Some (rl, M1) \<and>
           (M' = M1 \<or> (\<exists>m. M' = method_update ''forward'' m M1))"
  using assms
  by (auto simp: set_output_data_ptr_def split: option.splits sum.splits prod.splits)

lemma method_names_frame:
  assumes "method_names R M = Some (r, M')"
  shows "M' = snd (load R default_verification M)"
  using assms
  by (auto simp: method_names_def split: option.splits sum.splits prod.splits)

lemma step_load_inv:
  assumes "step R c M = Some M'" "load_inv M"
  shows "load_inv M'"
proof (cases c)
  case (Call_load v)
  with assms show ?thesis using load_inv_load[of M R v] by auto
next
  case Call_is_loaded
  with assms show ?thesis by auto
next
  case Call_method_names
  with assms show ?thesis using load_inv_load[of M R default_verification]
    by (auto dest: method_names_frame)
next
  case (Call_load_method n)
  with assms show ?thesis by (auto dest: load_method_load_inv)
next
  case (Call_is_method_loaded n)
  with assms show ?thesis by auto
next
  case (Call_method_meta n)
  with assms show ?thesis by (auto dest!: method_meta_frame dest: load_method_load_inv)
next
  case (Call_execute n input)
  with assms show ?thesis by (auto dest!: execute_frame dest: load_method_load_inv)
next
  case (Call_set_output_data_ptr tensor ix)
  with assms show ?thesis by (auto dest!: set_output_data_ptr_frame dest: load_method_load_inv)
qed

lemma step_keeps_program:
  assumes "step R c M = Some M'" "program M \<noteq> None"
  shows "program M' = program M"
proof (cases c)
  case (Call_load v)
  with assms show ?thesis using load_keeps_program[of M R v] by auto
next
  case Call_is_loaded
  with assms show ?thesis by auto
next
  case Call_method_names
  with assms show ?thesis using load_keeps_program[of M R default_verification]
    by (auto dest: method_names_frame)
next
  case (Call_load_method n)
  with assms show ?thesis by (auto dest: load_method_keeps_program)
next
  case (Call_is_method_loaded n)
  with assms show ?thesis by auto
next
  case (Call_method_meta n)
  with assms show ?thesis by (auto dest!: method_meta_frame dest: load_method_keeps_program)
next
  case (Call_execute n input)
  with assms show ?thesis by (auto dest!: execute_frame dest: load_method_keeps_program)
next
  case (Call_set_output_data_ptr tensor ix)
  with assms show ?thesis by (auto dest!: set_output_data_ptr_frame dest: load_method_keeps_program)
qed

lemma run_load_inv: "run cs M = Some M' \<Longrightarrow> load_inv M \<Longrightarrow> load_inv M'"
proof (induction cs arbitrary: M)
  case Nil
  then show ?case by simp
next
  case (Cons c cs)
  then show ?case by (auto split: option.splits dest: step_load_inv)
qed

lemma run_keeps_program: "run cs M = Some M' \<Longrightarrow> program M \<noteq> None \<Longrightarrow> program M' = program M"
proof (induction cs arbitrary: M)
  case Nil
  then show ?case by simp
next
  case (Cons c cs)
  from Cons.prems obtain M1 where s: "step (fst c) (snd c) M = Some M1" and r: "run cs M1 = Some M'"
    by (auto split: option.splits)
  from step_keeps_program[OF s Cons.prems(2)] have "program M1 = program M" .
  with Cons.IH[OF r] Cons.prems(2) show ?case by simp
qed

lemma load_inv_fresh: "calls M = [] \<Longrightarrow> load_inv M"
  by (simp add: load_inv_def accessors_constructed_def programs_parsed_def)

lemma load_method_loaded_events:
  assumes "load_method R n M = Some (r, M')" "program M \<noteq> None"
  shows "filter load_event (calls M') = filter load_event (calls M)"
  using load_method_frame[OF assms(1)] load_loaded[of M R default_verification] assms(2)
  by (auto simp: is_loaded_def)

lemma updated_loaded_events:
  assumes "load_method R n M = Some (rl, M1)" "M' = M1 \<or> (\<exists>m. M' = method_update n m M1)"
    "program M \<noteq> None"
  shows "filter load_event (calls M') = filter load_event (calls M)"
  using load_method_loaded_events[OF assms(1,3)] assms(2) by auto

lemma step_loaded_events:
  assumes "step R c M = Some M'" "program M \<noteq> None"
  shows "filter load_event (calls M') = filter load_event (calls M)"
proof (cases c)
  case (Call_load v)
  with assms show ?thesis using load_loaded[of M R v] by (auto simp: is_loaded_def)
next
  case Call_is_loaded
  with assms show ?thesis by auto
next
  case Call_method_names
  with assms show ?thesis using load_loaded[of M R default_verification]
    by (auto simp: is_loaded_def dest: method_names_frame)
next
  case (Call_load_method n)
  with assms(1) obtain r where "load_method R n M = Some (r, M')" by auto
  from load_method_loaded_events[OF this assms(2)] show ?thesis .
next
  case (Call_is_method_loaded n)
  with assms show ?thesis by auto
next
  case (Call_method_meta n)
  with assms(1) obtain r where "method_meta R n M = Some (r, M')" by auto
  from method_meta_frame[OF this] obtain rl where "load_method R n M = Some (rl, M')" by auto
  from load_method_loaded_events[OF this assms(2)] show ?thesis .
next
  case (Call_execute n input)
  with assms(1) obtain r where "execute R n input M = Some (r, M')" by auto
  from execute_frame[OF this] obtain rl M1 where
    "load_method R n M = Some (rl, M1)" "M' = M1 \<or> (\<exists>m. M' = method_update n m M1)" by auto
  from updated_loaded_events[OF this assms(2)] show ?thesis .
next
  case (Call_set_output_data_ptr tensor ix)
  with assms(1) obtain r where "set_output_data_ptr R tensor ix M = Some (r, M')" by auto
  from set_output_data_ptr_frame[OF this] obtain rl M1 where
    "load_method R ''forward'' M = Some (rl, M1)"
    "M' = M1 \<or> (\<exists>m. M' = method_update ''forward'' m M1)" by auto
  from updated_loaded_events[OF this assms(2)] show ?thesis .
qed

lemma run_loaded_events:
  "run cs M = Some M' \<Longrightarrow> program M \<noteq> None \<Longrightarrow>
     filter load_event (calls M') = filter load_event (calls M)"
proof (induction cs arbitrary: M)
  case Nil
  then show ?case by simp
next
  case (Cons c cs)
  from Cons.prems obtain M1 where s: "step (fst c) (snd c) M = Some M1" and r: "run cs M1 = Some M'"
    by (auto split: option.splits)
  from step_keeps_program[OF s Cons.prems(2)] Cons.prems(2) have p: "program M1 \<noteq> None" by simp
  from Cons.IH[OF r p] step_loaded_events[OF s Cons.prems(2)] show ?case by simp
qed

section \<open>The method cache\<close>


lemma load_calls_not_load_event:
  "\<not> load_event ev \<Longrightarrow> count_list (calls (snd (load R v M))) ev = count_list (calls M) ev"
  by (cases ev) (auto simp: load_def record_call_def split: option.splits sum.splits)

lemma count_list_plan [simp]:
  "count_list (map (BufferAllocate n) ss) (Materialize k b) = 0"
  "count_list (map (BufferAllocate n) ss) (MetadataLookup k b) = 0"
  by (induction ss) auto

lemma plan_loop_count_Materialize:
  assumes "plan_loop n meta c i (h, xs @ [MetadataLookup n b']) = Some (holder, evs)"
  shows "count_list evs (Materialize k b) = count_list xs (Materialize k b)"
proof -
  from plan_loop_log[OF assms] obtain ss where
    "evs = (xs @ [MetadataLookup n b']) @ map (BufferAllocate n) ss" by auto
  then show ?thesis by simp
qed

lemma load_method_methods:
  fixes R :: "('d, 'p, 'm, 'v, 'a, 't) Runtime"
  assumes "load_method R n M = Some (r, M')"
  shows "k \<noteq> n \<Longrightarrow> methods M' k = methods M k"
    and "methods M n \<noteq> None \<Longrightarrow> M' = M"
    and "r = Ok \<Longrightarrow> methods M' n \<noteq> None"
    and "r \<noteq> Ok \<Longrightarrow> methods M' = methods M \<and> methods M n = None"
  using assms load_methods[of R default_verification M]
  by (cases rule: load_method_cases; auto simp: record_call_def)+

lemma load_method_holders_created:
  fixes R :: "('d, 'p, 'm, 'v, 'a, 't) Runtime"
  assumes "load_method R n M = Some (r, M')"
  shows "holders_created k M' =
    holders_created k M + (if k = n \<and> methods M n = None \<and> r = Ok then 1 else 0)"
  using assms
proof (cases rule: load_method_cases)
  case cached
  then show ?thesis by simp
next
  case (load_failed e)
  then show ?thesis
    using load_calls_not_load_event[of "Materialize k True" R default_verification M]
    by (simp add: holders_created_def)
next
  case (meta_failed M1 p e)
  then show ?thesis
    using load_calls_not_load_event[of "Materialize k True" R default_verification M]
    by (simp add: holders_created_def record_call_def)
next
  case (materialize_failed M1 p meta holder evs e)
  then show ?thesis
    using load_calls_not_load_event[of "Materialize k True" R default_verification M]
      plan_loop_count_Materialize[OF materialize_failed(5), of k True]
    by (simp add: holders_created_def)
next
  case (loaded M1 p meta holder evs m)
  then show ?thesis
    using load_calls_not_load_event[of "Materialize k True" R default_verification M]
      plan_loop_count_Materialize[OF loaded(5), of k True]
    by (simp add: holders_created_def)
qed

lemma load_method_cache_inv:
  fixes R :: "('d, 'p, 'm, 'v, 'a, 't) Runtime"
  assumes "load_method R n M = Some (r, M')" "cache_inv M"
  shows "cache_inv M'"
  unfolding cache_inv_def
proof
  fix k
  show "holders_created k M' = (if methods M' k = None then 0 else 1)"
  proof (cases "methods M n = None")
    case False
    with load_method_methods(2)[OF assms(1)] assms(2) show ?thesis by (simp add: cache_inv_def)
  next
    case True
    show ?thesis
    proof (cases "k = n")
      case False
      with load_method_methods(1)[OF assms(1), of k] load_method_holders_created[OF assms(1), of k]
        assms(2) show ?thesis by (simp add: cache_inv_def)
    next
      case kn: True
      show ?thesis
      proof (cases "r = Ok")
        case True
        with kn load_method_methods(3)[OF assms(1)] load_method_holders_created[OF assms(1), of k]
          assms(2) \<open>methods M n = None\<close> show ?thesis by (simp add: cache_inv_def)
      next
        case False
        with kn load_method_methods(4)[OF assms(1)] load_method_holders_created[OF assms(1), of k]
          assms(2) show ?thesis by (simp add: cache_inv_def)
      qed
    qed
  qed
qed

lemma load_cache_inv: "cache_inv M \<Longrightarrow> cache_inv (snd (load R v M))"
  using load_calls_not_load_event[of "Materialize _ True" R v M] load_methods[of R v M]
  by (simp add: cache_inv_def holders_created_def)

lemma method_update_cache_inv [simp]: "cache_inv (method_update n m M) = cache_inv M"
  by (simp add: cache_inv_def holders_created_def)

lemma step_cache_inv:
  assumes "step R c M = Some M'" "cache_inv M"
  shows "cache_inv M'"
proof (cases c)
  case (Call_load v)
  with assms show ?thesis using load_cache_inv[of M R v] by auto
next
  case Call_is_loaded
  with assms show ?thesis by auto
next
  case Call_method_names
  with assms show ?thesis using load_cache_inv[of M R default_verification]
    by (auto dest: method_names_frame)
next
  case (Call_load_method n)
  with assms show ?thesis by (auto dest: load_method_cache_inv)
next
  case (Call_is_method_loaded n)
  with assms show ?thesis by auto
next
  case (Call_method_meta n)
  with assms show ?thesis by (auto dest!: method_meta_frame dest: load_method_cache_inv)
next
  case (Call_execute n input)
  with assms show ?thesis by (auto dest!: execute_frame dest: load_method_cache_inv)
next
  case (Call_set_output_data_ptr tensor ix)
  with assms show ?thesis by (auto dest!: set_output_data_ptr_frame dest: load_method_cache_inv)
qed

lemma load_method_keeps_loaded:
  assumes "load_method R n M = Some (r, M')" "methods M k \<noteq> None"
  shows "methods M' k \<noteq> None"
  using load_method_methods(1)[OF assms(1), of k] load_method_methods(2)[OF assms(1)] assms(2)
  by (cases "k = n") auto

lemma updated_keeps_loaded:
  assumes "load_method R n M = Some (rl, M1)" "M' = M1 \<or> (\<exists>m. M' = method_update n m M1)"
    "methods M k \<noteq> None"
  shows "methods M' k \<noteq> None"
proof -
  have l: "methods M1 k \<noteq> None" by (rule load_method_keeps_loaded[OF assms(1,3)])
  from assms(2) show ?thesis
  proof
    assume "M' = M1"
    with l show ?thesis by simp
  next
    assume "\<exists>m. M' = method_update n m M1"
    then obtain m where m: "M' = method_update n m M1" by blast
    have "(methods (method_update n m M1) k = None) = (methods M1 k = None)" by simp
    with l m show ?thesis by (simp del: not_None_eq)
  qed
qed

lemma step_keeps_loaded:
  assumes "step R c M = Some M'" "methods M k \<noteq> None"
  shows "methods M' k \<noteq> None"
proof (cases c)
  case (Call_load v)
  with assms show ?thesis using load_methods[of R v M] by auto
next
  case Call_is_loaded
  with assms show ?thesis by auto
next
  case Call_method_names
  with assms show ?thesis using load_methods[of R default_verification M]
    by (auto dest: method_names_frame)
next
  case (Call_load_method n)
  with assms(1) obtain r where "load_method R n M = Some (r, M')" by auto
  from load_method_keeps_loaded[OF this assms(2)] show ?thesis .
next
  case (Call_is_method_loaded n)
  with assms show ?thesis by auto
next
  case (Call_method_meta n)
  with assms(1) obtain r where "method_meta R n M = Some (r, M')" by auto
  from method_meta_frame[OF this] obtain rl where "load_method R n M = Some (rl, M')" by auto
  from load_method_keeps_loaded[OF this assms(2)] show ?thesis .
next
  case (Call_execute n input)
  with assms(1) obtain r where "execute R n input M = Some (r, M')" by auto
  from execute_frame[OF this] obtain rl M1 where
    "load_method R n M = Some (rl, M1)" "M' = M1 \<or> (\<exists>m. M' = method_update n m M1)" by auto
  from updated_keeps_loaded[OF this assms(2)] show ?thesis .
next
  case (Call_set_output_data_ptr tensor ix)
  with assms(1) obtain r where "set_output_data_ptr R tensor ix M = Some (r, M')" by auto
  from set_output_data_ptr_frame[OF this] obtain rl M1 where
    "load_method R ''forward'' M = Some (rl, M1)"
    "M' = M1 \<or> (\<exists>m. M' = method_update ''forward'' m M1)" by auto
  from updated_keeps_loaded[OF this assms(2)] show ?thesis .
qed

lemma run_cache_inv: "run cs M = Some M' \<Longrightarrow> cache_inv M \<Longrightarrow> cache_inv M'"
proof (induction cs arbitrary: M)
  case Nil
  then show ?case by simp
next
  case (Cons c cs)
  then show ?case by (auto split: option.splits dest: step_cache_inv)
qed

lemma run_keeps_loaded: "run cs M = Some M' \<Longrightarrow> methods M k \<noteq> None \<Longrightarrow> methods M' k \<noteq> None"
proof (induction cs arbitrary: M)
  case Nil
  then show ?case by simp
next
  case (Cons c cs)
  from Cons.prems obtain M1 where s: "step (fst c) (snd c) M = Some M1" and r: "run cs M1 = Some M'"
    by (auto split: option.splits)
  from Cons.IH[OF r step_keeps_loaded[OF s Cons.prems(2)]] show ?case .
qed

lemma cache_inv_fresh: "calls M = [] \<Longrightarrow> methods M = Map.empty \<Longrightarrow> cache_inv M"
  by (simp add: cache_inv_def holders_created_def)

section \<open>Claims about Module::load\<close>

text \<open>
  C4. \<^verbatim>\<open>load\<close> is idempotent. When a program is set it returns \<^verbatim>\<open>Error::Ok\<close> and
  leaves the module as it is, the record of calls included: no accessor is constructed and
  nothing is parsed. A \<^verbatim>\<open>load\<close> that returns \<^verbatim>\<open>Error::Ok\<close> leaves a program set,
  no later call of the public interface unsets it, and so every later \<^verbatim>\<open>load\<close> returns
  \<^verbatim>\<open>Error::Ok\<close>; once a program is set, no call even attempts a construction or a parse
  again. Over any sequence of calls on a new module, whatever the runtime does at each
  call, at most one accessor is constructed and at most one program is parsed. (Before a
  program is set, a construction or a parse that fails produces no object and is attempted
  again by the next \<^verbatim>\<open>load\<close>.)
\<close>

theorem load_idempotent:
  fixes R :: "('d, 'p, 'm, 'v, 'a, 't) Runtime" and M :: "('d, 'p, 'm, 'a, 't) Module"
  shows "(is_loaded M \<longrightarrow> load R v M = (Ok, M)) \<and>
    (fst (load R v M) = Ok \<longrightarrow> is_loaded (snd (load R v M))) \<and>
    (is_loaded M \<and> run cs M = Some M' \<longrightarrow>
       is_loaded M' \<and> load R v M' = (Ok, M') \<and>
       filter load_event (calls M') = filter load_event (calls M)) \<and>
    (calls M = [] \<and> run cs M = Some M' \<longrightarrow>
       accessors_constructed M' \<le> 1 \<and> programs_parsed M' \<le> 1)"
proof (intro conjI impI)
  assume "is_loaded M"
  then show "load R v M = (Ok, M)" by (rule load_loaded)
next
  assume "fst (load R v M) = Ok"
  then show "is_loaded (snd (load R v M))"
    using load_Ok_program[of R v M "()" "snd (load R v M)"]
    by (cases "load R v M") (simp add: is_loaded_def)
next
  assume a: "is_loaded M \<and> run cs M = Some M'"
  then have "program M' = program M" using run_keeps_program[of cs M M'] by (simp add: is_loaded_def)
  with a show "is_loaded M'" by (simp add: is_loaded_def)
  then show "load R v M' = (Ok, M')" by (rule load_loaded)
  from a show "filter load_event (calls M') = filter load_event (calls M)"
    using run_loaded_events[of cs M M'] by (simp add: is_loaded_def)
next
  assume a: "calls M = [] \<and> run cs M = Some M'"
  then have "load_inv M'" using run_load_inv[of cs M M'] load_inv_fresh[of M] by simp
  then show "accessors_constructed M' \<le> 1" "programs_parsed M' \<le> 1"
    by (simp_all add: load_inv_def)
qed

theorem load_idempotent_witness:
  "fst (load stub_runtime Minimal stub_module) = Ok \<and>
   is_loaded (snd (load stub_runtime Minimal stub_module)) \<and>
   load stub_runtime Minimal (snd (load stub_runtime Minimal stub_module)) =
     (Ok, snd (load stub_runtime Minimal stub_module)) \<and>
   calls stub_module = [] \<and>
   run [(stub_runtime, Call_load Minimal), (stub_runtime, Call_execute ''forward'' [7, 8]),
        (broken_runtime, Call_load InternalConsistency)] stub_module \<noteq> None \<and>
   accessors_constructed (the (run [(stub_runtime, Call_load Minimal),
        (stub_runtime, Call_execute ''forward'' [7, 8]),
        (broken_runtime, Call_load InternalConsistency)] stub_module)) = 1 \<and>
   programs_parsed (the (run [(stub_runtime, Call_load Minimal),
        (stub_runtime, Call_execute ''forward'' [7, 8]),
        (broken_runtime, Call_load InternalConsistency)] stub_module)) = 1"
proof -
  let ?M1 = "snd (load stub_runtime Minimal stub_module)"
  let ?cs = "[(stub_runtime, Call_load Minimal), (stub_runtime, Call_execute ''forward'' [7, 8]),
        (broken_runtime, Call_load InternalConsistency)]"
  have ok: "fst (load stub_runtime Minimal stub_module) = Ok" by (simp add: ev)
  have fresh: "calls stub_module = []" by (simp add: ev)
  have r: "run ?cs stub_module \<noteq> None" by (simp add: ev broken_runtime_def)
  have c1: "accessors_constructed (the (run ?cs stub_module)) = 1" by (simp add: ev broken_runtime_def)
  have c2: "programs_parsed (the (run ?cs stub_module)) = 1" by (simp add: ev broken_runtime_def)
  from load_idempotent[of stub_module stub_runtime Minimal ?cs "the (run ?cs stub_module)"] ok
  have l1: "is_loaded ?M1" by simp
  from load_idempotent[of ?M1 stub_runtime Minimal "[]" ?M1] l1
  have l2: "load stub_runtime Minimal ?M1 = (Ok, ?M1)" by simp
  from load_idempotent[of stub_module stub_runtime Minimal ?cs "the (run ?cs stub_module)"] fresh r
  have "accessors_constructed (the (run ?cs stub_module)) \<le> 1"
    "programs_parsed (the (run ?cs stub_module)) \<le> 1" by auto
  with ok fresh r c1 c2 l1 l2 show ?thesis by blast
qed

section \<open>Claims about Module::load_method\<close>

text \<open>
  C5. \<^verbatim>\<open>load_method\<close> is idempotent per name. When a holder exists for the name it
  returns \<^verbatim>\<open>Error::Ok\<close> and leaves the module as it is, whatever the runtime would
  answer: the record of calls is unchanged, so no metadata is looked up, no buffer is
  allocated and nothing is materialized. A successful \<^verbatim>\<open>load_method\<close> leaves a holder
  for the name, no later call removes it, and so every later \<^verbatim>\<open>load_method\<close> for the
  name is such a no-op. Over any sequence of calls on a new module, the number of holders
  created for a name (successful materializations) is 1 when the name is in the cache and
  0 otherwise: at most one.
\<close>

theorem load_method_idempotent:
  fixes R :: "('d, 'p, 'm, 'v, 'a, 't) Runtime" and M :: "('d, 'p, 'm, 'a, 't) Module"
  shows "(is_method_loaded name M \<longrightarrow> load_method R name M = Some (Ok, M)) \<and>
    (load_method R name M = Some (Ok, M1) \<longrightarrow> is_method_loaded name M1) \<and>
    (is_method_loaded name M \<and> run cs M = Some M' \<longrightarrow>
       is_method_loaded name M' \<and> load_method R name M' = Some (Ok, M')) \<and>
    (calls M = [] \<and> methods M = Map.empty \<and> run cs M = Some M' \<longrightarrow>
       holders_created name M' = (if is_method_loaded name M' then 1 else 0))"
proof (intro conjI impI)
  assume "is_method_loaded name M"
  then show "load_method R name M = Some (Ok, M)" by (simp add: load_method_def)
next
  assume "load_method R name M = Some (Ok, M1)"
  from load_method_methods(3)[OF this] show "is_method_loaded name M1"
    by (simp add: is_method_loaded_def)
next
  assume a: "is_method_loaded name M \<and> run cs M = Some M'"
  then show "is_method_loaded name M'"
    using run_keeps_loaded[of cs M M' name] by (simp add: is_method_loaded_def)
  then show "load_method R name M' = Some (Ok, M')" by (simp add: load_method_def)
next
  assume a: "calls M = [] \<and> methods M = Map.empty \<and> run cs M = Some M'"
  then have "cache_inv M'" using run_cache_inv[of cs M M'] cache_inv_fresh[of M] by simp
  then show "holders_created name M' = (if is_method_loaded name M' then 1 else 0)"
    by (simp add: cache_inv_def is_method_loaded_def)
qed


theorem load_method_idempotent_witness:
  "calls stub_module = [] \<and> methods stub_module = Map.empty \<and>
   run [(stub_runtime, Call_load_method ''forward''), (broken_runtime, Call_load_method ''forward''),
        (stub_runtime, Call_execute ''forward'' [1, 2])] stub_module \<noteq> None \<and>
   is_method_loaded ''forward'' (the (run [(stub_runtime, Call_load_method ''forward''),
        (broken_runtime, Call_load_method ''forward''),
        (stub_runtime, Call_execute ''forward'' [1, 2])] stub_module)) \<and>
   holders_created ''forward'' (the (run [(stub_runtime, Call_load_method ''forward''),
        (broken_runtime, Call_load_method ''forward''),
        (stub_runtime, Call_execute ''forward'' [1, 2])] stub_module)) = 1 \<and>
   load_method broken_runtime ''forward'' (the (run [(stub_runtime, Call_load_method ''forward''),
        (broken_runtime, Call_load_method ''forward''),
        (stub_runtime, Call_execute ''forward'' [1, 2])] stub_module)) =
     Some (Ok, the (run [(stub_runtime, Call_load_method ''forward''),
        (broken_runtime, Call_load_method ''forward''),
        (stub_runtime, Call_execute ''forward'' [1, 2])] stub_module))"
proof -
  let ?cs = "[(stub_runtime, Call_load_method ''forward''), (broken_runtime, Call_load_method ''forward''),
        (stub_runtime, Call_execute ''forward'' [1, 2])]"
  let ?M' = "the (run ?cs stub_module)"
  have fresh: "calls stub_module = []" "methods stub_module = Map.empty" by (simp_all add: ev)
  have r: "run ?cs stub_module \<noteq> None" by (simp add: ev broken_runtime_def)
  have l: "is_method_loaded ''forward'' ?M'" by (simp add: ev broken_runtime_def)
  from load_method_idempotent[of "''forward''" stub_module stub_runtime _ ?cs ?M'] fresh r l
  have c: "holders_created ''forward'' ?M' = 1" by auto
  from load_method_idempotent[of "''forward''" ?M' broken_runtime _ "[]" ?M'] l
  have "load_method broken_runtime ''forward'' ?M' = Some (Ok, ?M')" by simp
  with fresh r l c show ?thesis by blast
qed

section \<open>The planning loop\<close>


text \<open>The holder after the planning loop has run from index k over sizes sz.\<close>

lemma plan_loop_result:
  fixes h :: "('m, 'a) MethodHolder"
  assumes "\<forall>i<N. memory_planned_buffer_size meta i = Inr (sz i) \<and> 0 \<le> sint (sz i)"
    and "N \<le> INT_MAX" and "k \<le> N"
  shows "plan_loop n meta N k (h, evs) =
    Some (h\<lparr>planned_buffers := planned_buffers h @ map (\<lambda>i. replicate (unat (sz i)) 0) [k..<N],
            planned_spans := planned_spans h @
              map (\<lambda>i. \<lparr>span_data = length (planned_buffers h) + (i - k), span_size = unat (sz i)\<rparr>) [k..<N]\<rparr>,
          evs @ map (\<lambda>i. BufferAllocate n (unat (sz i))) [k..<N])"
  using assms(3)
proof (induction "N - k" arbitrary: k h evs)
  case 0
  then have "k = N" by simp
  then show ?case by (simp add: plan_loop.simps)
next
  case (Suc d)
  then have kN: "k < N" and d: "d = N - Suc k" and le: "Suc k \<le> N" by simp_all
  from kN assms(1) have sz: "memory_planned_buffer_size meta k = Inr (sz k)" "\<not> sint (sz k) < 0"
    by (auto simp: not_less)
  from kN assms(2) have ni: "k \<noteq> INT_MAX" by simp
  let ?h1 = "h\<lparr>planned_buffers := planned_buffers h @ [replicate (unat (sz k)) 0],
               planned_spans := planned_spans h @
                 [\<lparr>span_data = length (planned_buffers h), span_size = unat (sz k)\<rparr>]\<rparr>"
  have pb: "plan_buffer (sz k) h = Some ?h1"
    using sz(2) by (simp add: plan_buffer_def Let_def)
  have step: "plan_loop n meta N k (h, evs) =
      plan_loop n meta N (Suc k) (?h1, evs @ [BufferAllocate n (unat (sz k))])"
    using kN sz(1) pb ni by (subst plan_loop.simps) simp
  have m: "map (\<lambda>i. \<lparr>span_data = Suc (length (planned_buffers h) + (i - Suc k)), span_size = unat (sz i)\<rparr>) [Suc k..<N]
         = map (\<lambda>i. \<lparr>span_data = length (planned_buffers h) + (i - k), span_size = unat (sz i)\<rparr>) [Suc k..<N]"
    by (rule map_cong) auto
  show ?case
    unfolding step Suc.hyps(1)[OF d le]
    using kN m by (simp add: upt_conv_Cons)
qed

lemma plan_loop_Some:
  "plan_loop n meta N k st = Some st' \<Longrightarrow> k \<le> i \<Longrightarrow> i < N \<Longrightarrow>
     i \<noteq> INT_MAX \<and> (\<exists>s. memory_planned_buffer_size meta i = Inr s \<and> 0 \<le> sint s)"
proof (induction n meta N k st rule: plan_loop.induct)
  case (1 n meta c k st)
  from "1.prems" have kc: "k < c" by simp
  from kc "1.prems"(1) obtain s h where
    s: "memory_planned_buffer_size meta k = Inr s" and
    h: "plan_buffer s (fst st) = Some h" and
    ni: "k \<noteq> INT_MAX" and
    rec: "plan_loop n meta c (k + 1) (h, snd st @ [BufferAllocate n (unat s)]) = Some st'"
    by (subst (asm) plan_loop.simps) (auto split: sum.splits option.splits if_splits)
  show ?case
  proof (cases "i = k")
    case True
    from h have "0 \<le> sint s" by (auto simp: plan_buffer_def split: if_splits)
    with True s ni show ?thesis by simp
  next
    case False
    with "1.prems" have "k + 1 \<le> i" by simp
    from "1.IH"[OF kc s h ni rec this "1.prems"(3)] show ?thesis .
  qed
qed

lemma plan_loop_Some_bound:
  assumes "plan_loop n meta N 0 st = Some st'"
  shows "N \<le> INT_MAX"
proof (rule ccontr)
  assume "\<not> N \<le> INT_MAX"
  then have "INT_MAX < N" by simp
  from plan_loop_Some[OF assms _ this] show False by simp
qed


lemma unat_nonneg_sint:
  fixes w :: "64 word"
  assumes "0 \<le> sint w"
  shows "int (unat w) = sint w"
proof -
  have "sint w < 2 ^ 63" using sint_lt[of w] by simp
  then have "sint w < 2 ^ 64" by simp
  with assms have "take_bit 64 (sint w) = sint w" by (simp add: take_bit_int_eq_self)
  moreover have "uint w = take_bit 64 (sint w)" using uint_sint[of w] by simp
  ultimately show ?thesis by simp
qed

text \<open>
  C3. When \<^verbatim>\<open>load_method\<close> returns an error, from whichever stage (the forced
  \<^verbatim>\<open>load\<close>, the metadata lookup or the materialization), the cache is as before and
  holds no entry for the name: \<^verbatim>\<open>is_method_loaded\<close> is false afterwards. When the
  planning of the buffers fails (a size that cannot be read or allocated), the call does not
  return an error: it aborts or throws and has no result, so it inserts nothing either. A
  later
  \<^verbatim>\<open>load_method\<close> for the name, against a runtime in which every stage succeeds (the
  program loads, the metadata is found, the planned sizes are readable and not negative,
  the materialization accepts the assembled memory manager), returns \<^verbatim>\<open>Error::Ok\<close> and
  leaves a holder under the name whose method is the materialized one.
\<close>

theorem load_method_failure_inserts_nothing:
  fixes R R2 :: "('d, 'p, 'm, 'v, 'a, 't) Runtime" and M :: "('d, 'p, 'm, 'a, 't) Module"
  shows "(load_method R name M = Some (Inl e, M1) \<longrightarrow>
            \<not> is_method_loaded name M1 \<and> methods M1 = methods M) \<and>
    (\<not> is_method_loaded name M \<and> load R default_verification M = (Ok, M0) \<and>
     program M0 = Some p0 \<and> Program_method_meta R p0 name = Inr meta0 \<and>
     plan_loop name meta0 (num_memory_planned_buffers meta0) 0
       (MethodHolder_init :: ('m, 'a) MethodHolder, calls M0 @ [MetadataLookup name True]) = None
     \<longrightarrow> load_method R name M = None) \<and>
    (load_method R name M = Some (Inl e, M1) \<and>
     load R2 default_verification M1 = (Ok, M2) \<and> program M2 = Some p \<and>
     Program_method_meta R2 p name = Inr meta \<and>
     num_memory_planned_buffers meta \<le> INT_MAX \<and>
     (\<forall>i<num_memory_planned_buffers meta.
        memory_planned_buffer_size meta i = Inr (sz i) \<and> 0 \<le> sint (sz i)) \<and>
     Program_load_method R2 p name
       \<lparr>mm_method_allocator = memory_allocator M2,
        mm_planned_memory = map (\<lambda>i. \<lparr>span_data = i, span_size = unat (sz i)\<rparr>)
                               [0..<num_memory_planned_buffers meta],
        mm_temp_allocator = temp_allocator M2\<rparr> (event_tracer M2) = Inr m
     \<longrightarrow> (\<exists>M3. load_method R2 name M1 = Some (Ok, M3) \<and> is_method_loaded name M3 \<and>
               method_at name M3 = Some m))"
proof (intro conjI impI)
  assume a: "load_method R name M = Some (Inl e, M1)"
  from load_method_methods(4)[OF a] show "\<not> is_method_loaded name M1" "methods M1 = methods M"
    by (simp_all add: is_method_loaded_def)
next
  assume "\<not> is_method_loaded name M \<and> load R default_verification M = (Ok, M0) \<and>
     program M0 = Some p0 \<and> Program_method_meta R p0 name = Inr meta0 \<and>
     plan_loop name meta0 (num_memory_planned_buffers meta0) 0
       (MethodHolder_init :: ('m, 'a) MethodHolder, calls M0 @ [MetadataLookup name True]) = None"
  then show "load_method R name M = None" by (simp add: load_method_def)
next
  assume a: "load_method R name M = Some (Inl e, M1) \<and>
     load R2 default_verification M1 = (Ok, M2) \<and> program M2 = Some p \<and>
     Program_method_meta R2 p name = Inr meta \<and>
     num_memory_planned_buffers meta \<le> INT_MAX \<and>
     (\<forall>i<num_memory_planned_buffers meta.
        memory_planned_buffer_size meta i = Inr (sz i) \<and> 0 \<le> sint (sz i)) \<and>
     Program_load_method R2 p name
       \<lparr>mm_method_allocator = memory_allocator M2,
        mm_planned_memory = map (\<lambda>i. \<lparr>span_data = i, span_size = unat (sz i)\<rparr>)
                               [0..<num_memory_planned_buffers meta],
        mm_temp_allocator = temp_allocator M2\<rparr> (event_tracer M2) = Inr m"
  then have f: "load_method R name M = Some (Inl e, M1)" by simp
  from load_method_methods(4)[OF f] have nl: "\<not> is_method_loaded name M1"
    by (simp add: is_method_loaded_def)
  from a have sizes: "\<forall>i<num_memory_planned_buffers meta.
        memory_planned_buffer_size meta i = Inr (sz i) \<and> 0 \<le> sint (sz i)"
    and bound: "num_memory_planned_buffers meta \<le> INT_MAX" by simp_all
  note pl = plan_loop_result[OF sizes bound, of 0 name
      "MethodHolder_init :: ('m, 'a) MethodHolder" "calls M2 @ [MetadataLookup name True]"]
  have "load_method R2 name M1 =
     Some (Ok, M2\<lparr>methods := emplace name
        (MethodHolder_init\<lparr>planned_buffers :=
             map (\<lambda>i. replicate (unat (sz i)) 0) [0..<num_memory_planned_buffers meta],
           planned_spans := map (\<lambda>i. \<lparr>span_data = i, span_size = unat (sz i)\<rparr>)
                               [0..<num_memory_planned_buffers meta],
           planned_memory := Some (map (\<lambda>i. \<lparr>span_data = i, span_size = unat (sz i)\<rparr>)
                               [0..<num_memory_planned_buffers meta]),
           memory_manager := Some \<lparr>mm_method_allocator = memory_allocator M2,
              mm_planned_memory = map (\<lambda>i. \<lparr>span_data = i, span_size = unat (sz i)\<rparr>)
                               [0..<num_memory_planned_buffers meta],
              mm_temp_allocator = temp_allocator M2\<rparr>,
           the_method := Some m\<rparr>) (methods M2),
        calls := ((calls M2 @ [MetadataLookup name True]) @
           map (\<lambda>i. BufferAllocate name (unat (sz i))) [0..<num_memory_planned_buffers meta]) @
           [Materialize name True]\<rparr>)"
    using a nl pl by (simp add: load_method_def Let_def MethodHolder_init_def)
  moreover have "methods M2 name = None"
    using load_methods[of R2 default_verification M1] a nl by (simp add: is_method_loaded_def)
  ultimately show "\<exists>M3. load_method R2 name M1 = Some (Ok, M3) \<and> is_method_loaded name M3 \<and>
               method_at name M3 = Some m"
    by (simp add: is_method_loaded_def method_at_def emplace_def)
qed

theorem load_method_failure_inserts_nothing_witness:
  "map_option fst (load_method broken_runtime ''forward'' stub_module) = Some (Inl MetadataError) \<and>
   \<not> is_method_loaded ''forward'' (snd (the (load_method broken_runtime ''forward'' stub_module))) \<and>
   map_option fst (load_method stub_runtime ''forward''
      (snd (the (load_method broken_runtime ''forward'' stub_module)))) = Some Ok \<and>
   is_method_loaded ''forward'' (snd (the (load_method stub_runtime ''forward''
      (snd (the (load_method broken_runtime ''forward'' stub_module))))))"
proof -
  let ?M1 = "snd (the (load_method broken_runtime ''forward'' stub_module))"
  have f: "load_method broken_runtime ''forward'' stub_module = Some (Inl MetadataError, ?M1)"
    by (simp add: ev broken_runtime_def)
  from load_method_failure_inserts_nothing[of broken_runtime "''forward''" stub_module MetadataError ?M1] f
  have nl: "\<not> is_method_loaded ''forward'' ?M1" by simp
  have l: "load stub_runtime default_verification ?M1 = (Ok, ?M1)" by (simp add: ev broken_runtime_def)
  have p: "program ?M1 = Some [''forward'']" by (simp add: ev broken_runtime_def)
  have mt: "Program_method_meta stub_runtime [''forward''] ''forward'' = Inr stub_meta"
    by (simp add: stub_runtime_def)
  have b: "num_memory_planned_buffers stub_meta \<le> INT_MAX" by (simp add: stub_meta_def INT_MAX_def)
  have s: "\<forall>i<num_memory_planned_buffers stub_meta.
     memory_planned_buffer_size stub_meta i = Inr ((\<lambda>i. if i = 0 then 128 else 256) i) \<and>
     0 \<le> sint ((\<lambda>i. if i = 0 then 128 else 256 :: 64 word) i)"
    by (auto simp: stub_meta_def)
  have mat: "Program_load_method stub_runtime [''forward''] ''forward''
       \<lparr>mm_method_allocator = memory_allocator ?M1,
        mm_planned_memory = map (\<lambda>i. \<lparr>span_data = i, span_size = unat ((\<lambda>i. if i = 0 then 128 else 256 :: 64 word) i)\<rparr>)
                               [0..<num_memory_planned_buffers stub_meta],
        mm_temp_allocator = temp_allocator ?M1\<rparr> (event_tracer ?M1) =
      Inr \<lparr>slots = [None, None], results = [0, 0], output_ptrs = [None, None]\<rparr>"
    by (simp add: stub_runtime_def stub_meta_def upt_rec)
  from load_method_failure_inserts_nothing[of broken_runtime "''forward''" stub_module MetadataError ?M1
      _ _ _ stub_runtime ?M1 "[''forward'']" stub_meta "\<lambda>i. if i = 0 then 128 else 256"
      "\<lparr>slots = [None, None], results = [0, 0], output_ptrs = [None, None]\<rparr>"]
    f l p mt b s mat
  obtain M3 where M3: "load_method stub_runtime ''forward'' ?M1 = Some (Ok, M3)"
    "is_method_loaded ''forward'' M3" by blast
  have r1: "map_option fst (load_method broken_runtime ''forward'' stub_module) =
      Some (Inl MetadataError)" by (subst f) simp
  have r2: "map_option fst (load_method stub_runtime ''forward'' ?M1) = Some Ok"
    by (subst M3(1)) simp
  have r3: "is_method_loaded ''forward'' (snd (the (load_method stub_runtime ''forward'' ?M1)))"
    using M3(2) by (subst M3(1)) simp
  from r1 nl r2 r3 show ?thesis by blast
qed

text \<open>
  C6. Let the metadata of a method declare \<open>N\<close> planned buffers with sizes
  \<open>s 0, ..., s (N - 1)\<close>. A \<^verbatim>\<open>load_method\<close> that loads the method and returns
  \<^verbatim>\<open>Error::Ok\<close> leaves a holder with exactly \<open>N\<close> buffers, the \<open>i\<close>-th of exactly
  \<open>s i\<close> bytes (the sizes are then not negative, so the \<^verbatim>\<open>size_t\<close> and the
  \<^verbatim>\<open>int64_t\<close> readings agree), with one span per buffer in plan order; the hierarchical
  allocator is built over these spans and is the planned memory of the manager that was
  handed to \<^verbatim>\<open>Program::load_method\<close>. The buffers and spans are given by the sizes
  alone. The record of calls ends with the lookup, the \<open>N\<close> allocations in plan order and
  the materialization.
\<close>

theorem load_method_realizes_plan:
  fixes R :: "('d, 'p, 'm, 'v, 'a, 't) Runtime" and M :: "('d, 'p, 'm, 'a, 't) Module"
  assumes "\<not> is_method_loaded name M"
    and "load_method R name M = Some (Ok, M')"
    and "program M' = Some p"
    and "Program_method_meta R p name = Inr meta"
    and "num_memory_planned_buffers meta = N"
    and "\<forall>i<N. memory_planned_buffer_size meta i = Inr (s i)"
  shows "\<exists>holder manager m pre.
    methods M' name = Some holder \<and>
    length (planned_buffers holder) = N \<and>
    (\<forall>i<N. length (planned_buffers holder ! i) = unat (s i) \<and> int (unat (s i)) = sint (s i)) \<and>
    planned_buffers holder = map (\<lambda>i. replicate (unat (s i)) 0) [0..<N] \<and>
    planned_spans holder = map (\<lambda>i. \<lparr>span_data = i, span_size = unat (s i)\<rparr>) [0..<N] \<and>
    planned_memory holder = Some (planned_spans holder) \<and>
    memory_manager holder = Some manager \<and>
    mm_planned_memory manager = planned_spans holder \<and>
    Program_load_method R p name manager (event_tracer M') = Inr m \<and>
    the_method holder = Some m \<and>
    calls M' = pre @ [MetadataLookup name True] @
      map (\<lambda>i. BufferAllocate name (unat (s i))) [0..<N] @ [Materialize name True]"
  using assms(2)
proof (cases rule: load_method_cases)
  case cached
  with assms(1) show ?thesis by (simp add: is_method_loaded_def)
next
  case (load_failed e)
  then show ?thesis by simp
next
  case (meta_failed M1 p e)
  then show ?thesis by simp
next
  case (materialize_failed M1 p meta holder evs e)
  then show ?thesis by simp
next
  case (loaded M1 p1 meta1 holder evs m)
  from loaded(3,8) assms(3) have p1: "p1 = p" by simp
  with loaded(4) assms(4) have meta1: "meta1 = meta" by simp
  note pl = loaded(5)[unfolded meta1 assms(5)]
  have sizes: "\<forall>i<N. memory_planned_buffer_size meta i = Inr (s i) \<and> 0 \<le> sint (s i)"
  proof (intro allI impI)
    fix i assume i: "i < N"
    from plan_loop_Some[OF pl _ i] assms(6) i
    show "memory_planned_buffer_size meta i = Inr (s i) \<and> 0 \<le> sint (s i)" by auto
  qed
  have bound: "N \<le> INT_MAX" by (rule plan_loop_Some_bound[OF pl])
  from plan_loop_result[OF sizes bound, of 0 name
      "MethodHolder_init :: ('m, 'a) MethodHolder" "calls M1 @ [MetadataLookup name True]"] pl
  have holder: "holder = MethodHolder_init\<lparr>planned_buffers := map (\<lambda>i. replicate (unat (s i)) 0) [0..<N],
        planned_spans := map (\<lambda>i. \<lparr>span_data = i, span_size = unat (s i)\<rparr>) [0..<N]\<rparr>"
    and evs: "evs = (calls M1 @ [MetadataLookup name True]) @
        map (\<lambda>i. BufferAllocate name (unat (s i))) [0..<N]"
    by (simp_all add: MethodHolder_init_def)
  let ?h = "holder\<lparr>planned_memory := Some (planned_spans holder),
                      memory_manager := Some (manager_of M1 holder),
                      the_method := Some m\<rparr>"
  have 1: "methods M' name = Some ?h" using loaded(8) by simp
  have 2: "length (planned_buffers ?h) = N" by (simp add: holder)
  have 3: "\<forall>i<N. length (planned_buffers ?h ! i) = unat (s i) \<and> int (unat (s i)) = sint (s i)"
  proof (intro allI impI conjI)
    fix i assume i: "i < N"
    then show "length (planned_buffers ?h ! i) = unat (s i)" by (simp add: holder)
    from sizes i have "0 \<le> sint (s i)" by simp
    then show "int (unat (s i)) = sint (s i)" by (rule unat_nonneg_sint)
  qed
  have 4: "planned_buffers ?h = map (\<lambda>i. replicate (unat (s i)) 0) [0..<N]" by (simp add: holder)
  have 5: "planned_spans ?h = map (\<lambda>i. \<lparr>span_data = i, span_size = unat (s i)\<rparr>) [0..<N]"
    by (simp add: holder)
  have 6: "planned_memory ?h = Some (planned_spans ?h)" by simp
  have 7: "memory_manager ?h = Some (manager_of M1 holder)" by simp
  have 8: "mm_planned_memory (manager_of M1 holder) = planned_spans ?h" by (simp add: manager_of_def)
  have 9: "Program_load_method R p name (manager_of M1 holder) (event_tracer M') = Inr m"
    using loaded(6,8) p1 by simp
  have 10: "the_method ?h = Some m" by simp
  have 11: "calls M' = calls M1 @ [MetadataLookup name True] @
      map (\<lambda>i. BufferAllocate name (unat (s i))) [0..<N] @ [Materialize name True]"
    using loaded(8) evs by simp
  from 1 2 3 4 5 6 7 8 9 10 11 show ?thesis by blast
qed

theorem load_method_realizes_plan_witness:
  "\<not> is_method_loaded ''forward'' stub_module \<and>
   map_option fst (load_method stub_runtime ''forward'' stub_module) = Some Ok \<and>
   (\<exists>holder. methods (snd (the (load_method stub_runtime ''forward'' stub_module))) ''forward'' =
        Some holder \<and>
      map length (planned_buffers holder) = [128, 256] \<and>
      planned_spans holder = [\<lparr>span_data = 0, span_size = 128\<rparr>, \<lparr>span_data = 1, span_size = 256\<rparr>] \<and>
      planned_memory holder = Some (planned_spans holder))"
proof -
  let ?M' = "snd (the (load_method stub_runtime ''forward'' stub_module))"
  have n: "\<not> is_method_loaded ''forward'' stub_module" by (simp add: ev)
  have ok: "map_option fst (load_method stub_runtime ''forward'' stub_module) = Some Ok"
    by (simp add: ev)
  then have l: "load_method stub_runtime ''forward'' stub_module = Some (Ok, ?M')"
    by (cases "load_method stub_runtime ''forward'' stub_module") auto
  have p: "program ?M' = Some [''forward'']" by (simp add: ev)
  have mt: "Program_method_meta stub_runtime [''forward''] ''forward'' = Inr stub_meta"
    by (simp add: stub_runtime_def)
  have c: "num_memory_planned_buffers stub_meta = 2" by (simp add: stub_meta_def)
  have s: "\<forall>i<2. memory_planned_buffer_size stub_meta i = Inr (if i = 0 then 128 else 256)"
    by (auto simp: stub_meta_def)
  have u: "[0..<2] = [0, 1]" by (simp add: upt_rec)
  from load_method_realizes_plan[OF n l p mt c s] obtain holder manager m pre where h:
    "methods ?M' ''forward'' = Some holder \<and>
    length (planned_buffers holder) = 2 \<and>
    (\<forall>i<2. length (planned_buffers holder ! i) = unat (if i = 0 then 128 else 256 :: 64 word) \<and>
       int (unat (if i = 0 then 128 else 256 :: 64 word)) = sint (if i = 0 then 128 else 256 :: 64 word)) \<and>
    planned_buffers holder = map (\<lambda>i. replicate (unat (if i = 0 then 128 else 256 :: 64 word)) 0) [0..<2] \<and>
    planned_spans holder = map (\<lambda>i. \<lparr>span_data = i, span_size = unat (if i = 0 then 128 else 256 :: 64 word)\<rparr>) [0..<2] \<and>
    planned_memory holder = Some (planned_spans holder) \<and>
    memory_manager holder = Some manager \<and>
    mm_planned_memory manager = planned_spans holder \<and>
    Program_load_method stub_runtime [''forward''] ''forward'' manager (event_tracer ?M') = Inr m \<and>
    the_method holder = Some m \<and>
    calls ?M' = pre @ [MetadataLookup ''forward'' True] @
      map (\<lambda>i. BufferAllocate ''forward'' (unat (if i = 0 then 128 else 256 :: 64 word))) [0..<2] @
      [Materialize ''forward'' True]"
    by (elim exE) (rule that)
  have 1: "methods ?M' ''forward'' = Some holder" using h by (elim conjE)
  have 2: "map length (planned_buffers holder) = [128, 256]"
  proof -
    from h have "planned_buffers holder =
      map (\<lambda>i. replicate (unat (if i = 0 then 128 else 256 :: 64 word)) 0) [0..<2]" by (elim conjE)
    then show ?thesis by (simp add: u)
  qed
  have 3: "planned_spans holder = [\<lparr>span_data = 0, span_size = 128\<rparr>, \<lparr>span_data = 1, span_size = 256\<rparr>]"
  proof -
    from h have "planned_spans holder =
      map (\<lambda>i. \<lparr>span_data = i, span_size = unat (if i = 0 then 128 else 256 :: 64 word)\<rparr>) [0..<2]"
      by (elim conjE)
    then show ?thesis by (simp add: u)
  qed
  have 4: "planned_memory holder = Some (planned_spans holder)" using h by (elim conjE)
  show ?thesis
    apply (intro conjI)
      apply (rule n)
     apply (rule ok)
    apply (rule exI[of _ holder])
    apply (intro conjI)
       apply (rule 1)
      apply (rule 2)
     apply (rule 3)
    apply (rule 4)
    done
qed

section \<open>The pipeline of Module::execute\<close>

lemma method_after_0 [simp]: "method_after R input 0 m = m"
  by (simp add: method_after_def)

lemma method_after_Suc:
  "method_after R input (Suc k) m =
     snd (Method_set_input R (input ! k) k (method_after R input k m))"
  by (simp add: method_after_def)

lemma binds_ok_0 [simp]: "binds_ok R input 0 m"
  by (simp add: binds_ok_def)

lemma binds_ok_Suc:
  "binds_ok R input (Suc k) m =
     (binds_ok R input k m \<and>
      fst (Method_set_input R (input ! k) k (method_after R input k m)) = Ok)"
  by (simp add: binds_ok_def)

lemma binds_ok_nth:
  "binds_ok R input k m \<Longrightarrow> j < k \<Longrightarrow>
     fst (Method_set_input R (input ! j) j (method_after R input j m)) = Ok"
  by (simp add: binds_ok_def list_all_iff)

lemma bind_inputs_char:
  assumes "bind_inputs R input k m = Some (r, m')"
    and "m = method_after R input k m0" and "binds_ok R input k m0" and "k \<le> length input"
  shows "(r = Ok \<and> binds_ok R input (length input) m0 \<and>
            m' = method_after R input (length input) m0) \<or>
         (\<exists>i e. k \<le> i \<and> i < length input \<and> binds_ok R input i m0 \<and>
            Method_set_input R (input ! i) i (method_after R input i m0) = (Inl e, m') \<and>
            r = Inl e)"
  using assms
proof (induction R input k m rule: bind_inputs.induct)
  case (1 R input k m)
  show ?case
  proof (cases "k < length input")
    case False
    with "1.prems" have "k = length input" by simp
    with "1.prems" show ?thesis by (simp add: bind_inputs.simps)
  next
    case True
    obtain rs m1 where s: "Method_set_input R (input ! k) k m = (rs, m1)"
      by (cases "Method_set_input R (input ! k) k m")
    show ?thesis
    proof (cases rs)
      case (Inl e)
      with True s "1.prems"(1) have "r = Inl e" "m' = m1" by (simp_all add: bind_inputs.simps)
      with True s Inl "1.prems"(2,3) show ?thesis by auto
    next
      case (Inr u)
      with True s "1.prems"(1) have ni: "k \<noteq> INT_MAX"
        and rec: "bind_inputs R input (k + 1) m1 = Some (r, m')"
        by (auto simp: bind_inputs.simps split: if_splits)
      have m1: "m1 = method_after R input (k + 1) m0"
        using s "1.prems"(2) by (simp add: method_after_Suc)
      have ok: "binds_ok R input (k + 1) m0"
        using s Inr "1.prems"(2,3) by (simp add: binds_ok_Suc)
      from True have le: "k + 1 \<le> length input" by simp
      from "1.IH"[OF True s[symmetric] _ ni rec m1 ok le] Inr
      show ?thesis by (auto simp: Suc_le_eq)
    qed
  qed
qed

lemma bind_inputs_ok:
  assumes "binds_ok R input (length input) m0" and "length input \<le> INT_MAX"
  shows "k \<le> length input \<Longrightarrow>
    bind_inputs R input k (method_after R input k m0) =
      Some (Ok, method_after R input (length input) m0)"
proof (induction "length input - k" arbitrary: k)
  case 0
  then have "k = length input" by simp
  then show ?case by (simp add: bind_inputs.simps)
next
  case (Suc d)
  then have kl: "k < length input" and d: "d = length input - Suc k" and le: "Suc k \<le> length input"
    by simp_all
  from binds_ok_nth[OF assms(1) kl]
  obtain m1 where s: "Method_set_input R (input ! k) k (method_after R input k m0) = (Ok, m1)"
    by (cases "Method_set_input R (input ! k) k (method_after R input k m0)") auto
  then have m1: "m1 = method_after R input (Suc k) m0" by (simp add: method_after_Suc)
  from kl assms(2) have ni: "k \<noteq> INT_MAX" by simp
  show ?case
    using kl s ni Suc.hyps(1)[OF d le] by (subst bind_inputs.simps) (simp add: m1)
qed

lemma bind_inputs_fail:
  assumes "i < length input" and "binds_ok R input i m0"
    and "Method_set_input R (input ! i) i (method_after R input i m0) = (Inl e, m')"
    and "i \<le> INT_MAX"
  shows "k \<le> i \<Longrightarrow> bind_inputs R input k (method_after R input k m0) = Some (Inl e, m')"
proof (induction "i - k" arbitrary: k)
  case 0
  then have "k = i" by simp
  with assms(1,3) show ?case by (subst bind_inputs.simps) simp
next
  case (Suc d)
  then have ki: "k < i" and d: "d = i - Suc k" and le: "Suc k \<le> i" by simp_all
  from binds_ok_nth[OF assms(2) ki]
  obtain m1 where s: "Method_set_input R (input ! k) k (method_after R input k m0) = (Ok, m1)"
    by (cases "Method_set_input R (input ! k) k (method_after R input k m0)") auto
  then have m1: "m1 = method_after R input (Suc k) m0" by (simp add: method_after_Suc)
  from ki assms(4) have ni: "k \<noteq> INT_MAX" by simp
  from ki assms(1) have kl: "k < length input" by simp
  show ?case
    using kl s ni Suc.hyps(1)[OF d le] by (subst bind_inputs.simps) (simp add: m1)
qed

lemma method_at_update:
  "method_at n M1 = Some m0 \<Longrightarrow> method_at n (method_update n m M1) = Some m"
  by (auto simp: method_at_def method_update_def split: option.splits)

lemma execute_cases [consumes 1, case_names load_method_failed bind_failed run_failed
    get_outputs_failed succeeded]:
  fixes R :: "('d, 'p, 'm, 'v, 'a, 't) Runtime"
  assumes "execute R n input M = Some (r, M')"
  obtains
    (load_method_failed) e where "load_method R n M = Some (Inl e, M')" "r = Inl e"
  | (bind_failed) M1 m0 e m1 where "load_method R n M = Some (Ok, M1)"
      "method_at n M1 = Some m0" "bind_inputs R input 0 m0 = Some (Inl e, m1)"
      "r = Inl e" "M' = method_update n m1 M1"
  | (run_failed) M1 m0 m1 e m2 where "load_method R n M = Some (Ok, M1)"
      "method_at n M1 = Some m0" "bind_inputs R input 0 m0 = Some (Ok, m1)"
      "Method_execute R m1 = (Inl e, m2)" "r = Inl e" "M' = method_update n m2 M1"
  | (get_outputs_failed) M1 m0 m1 m2 e stores m3 where "load_method R n M = Some (Ok, M1)"
      "method_at n M1 = Some m0" "bind_inputs R input 0 m0 = Some (Ok, m1)"
      "Method_execute R m1 = (Ok, m2)"
      "Method_get_outputs R (Method_outputs_size R m2) m2 = ((Inl e, stores), m3)"
      "r = Inl e" "M' = method_update n m3 M1"
  | (succeeded) M1 m0 m1 m2 stores m3 outputs where "load_method R n M = Some (Ok, M1)"
      "method_at n M1 = Some m0" "bind_inputs R input 0 m0 = Some (Ok, m1)"
      "Method_execute R m1 = (Ok, m2)"
      "Method_get_outputs R (Method_outputs_size R m2) m2 = ((Ok, stores), m3)"
      "apply_stores stores (replicate (Method_outputs_size R m2) (EValue_default R)) = Some outputs"
      "r = Inr outputs" "M' = method_update n m3 M1"
proof -
  from assms obtain rl M1 where L: "load_method R n M = Some (rl, M1)"
    by (cases "load_method R n M") (auto simp: execute_def)
  show ?thesis
  proof (cases rl)
    case (Inl e)
    with assms L have "r = Inl e" "M' = M1" by (simp_all add: execute_def)
    with L Inl load_method_failed show ?thesis by simp
  next
    case (Inr u)
    with L have L': "load_method R n M = Some (Ok, M1)" by simp
    from assms L' obtain m0 where m0: "method_at n M1 = Some m0"
      by (cases "method_at n M1") (auto simp: execute_def)
    from assms L' m0 obtain rb m1 where B: "bind_inputs R input 0 m0 = Some (rb, m1)"
      by (cases "bind_inputs R input 0 m0") (auto simp: execute_def)
    show ?thesis
    proof (cases rb)
      case (Inl e)
      with assms L' m0 B have "r = Inl e" "M' = method_update n m1 M1"
        by (simp_all add: execute_def)
      with L' m0 B Inl bind_failed show ?thesis by simp
    next
      case (Inr u1)
      with B have B': "bind_inputs R input 0 m0 = Some (Ok, m1)" by simp
      obtain rx m2 where X: "Method_execute R m1 = (rx, m2)" by (cases "Method_execute R m1")
      show ?thesis
      proof (cases rx)
        case (Inl e)
        with assms L' m0 B' X have "r = Inl e" "M' = method_update n m2 M1"
          by (simp_all add: execute_def)
        with L' m0 B' X Inl run_failed show ?thesis by simp
      next
        case (Inr u2)
        with X have X': "Method_execute R m1 = (Ok, m2)" by simp
        obtain rg stores m3 where
          G: "Method_get_outputs R (Method_outputs_size R m2) m2 = ((rg, stores), m3)"
          by (cases "Method_get_outputs R (Method_outputs_size R m2) m2") auto
        from assms L' m0 B' X' G obtain outputs where
          A: "apply_stores stores (replicate (Method_outputs_size R m2) (EValue_default R)) =
                Some outputs"
          by (cases "apply_stores stores (replicate (Method_outputs_size R m2) (EValue_default R))";
              cases rg) (auto simp: execute_def Let_def)
        show ?thesis
        proof (cases rg)
          case (Inl e)
          with assms L' m0 B' X' G A have "r = Inl e" "M' = method_update n m3 M1"
            by (simp_all add: execute_def Let_def)
          with L' m0 B' X' G Inl get_outputs_failed show ?thesis by simp
        next
          case (Inr u3)
          with assms L' m0 B' X' G A have "r = Inr outputs" "M' = method_update n m3 M1"
            by (simp_all add: execute_def Let_def)
          with L' m0 B' X' G A Inr succeeded show ?thesis by simp
        qed
      qed
    qed
  qed
qed

lemma bind_inputs_0_char:
  assumes "bind_inputs R input 0 m0 = Some (r, m')"
  shows "(r = Ok \<and> binds_ok R input (length input) m0 \<and>
            m' = method_after R input (length input) m0) \<or>
         (\<exists>i e. i < length input \<and> binds_ok R input i m0 \<and>
            Method_set_input R (input ! i) i (method_after R input i m0) = (Inl e, m') \<and>
            r = Inl e)"
  using bind_inputs_char[OF assms, of m0] by auto

lemma fold_stores_length [simp]:
  "length (fold (\<lambda>s xs. xs[fst s := snd s]) stores xs) = length xs"
  by (induction stores arbitrary: xs) auto

lemma fold_stores_nth:
  "i < length xs \<Longrightarrow>
     fold (\<lambda>s xs. xs[fst s := snd s]) stores xs ! i = slot_after stores (xs ! i) i"
proof (induction stores arbitrary: xs)
  case Nil
  then show ?case by (simp add: slot_after_def)
next
  case (Cons s stores)
  then have "fold (\<lambda>s xs. xs[fst s := snd s]) (s # stores) xs ! i =
      slot_after stores (xs[fst s := snd s] ! i) i" by simp
  also have "\<dots> = slot_after (s # stores) (xs ! i) i"
    using Cons.prems by (cases "fst s = i") (auto simp: slot_after_def split: list.splits)
  finally show ?case .
qed

lemma apply_stores_Some:
  assumes "apply_stores stores (replicate n d) = Some outputs"
  shows "outputs = map (slot_after stores d) [0..<n]" and "list_all (\<lambda>s. fst s < n) stores"
proof -
  from assms have o: "outputs = fold (\<lambda>s xs. xs[fst s := snd s]) stores (replicate n d)"
    and a: "list_all (\<lambda>s. fst s < n) stores"
    by (auto simp: apply_stores_def split: if_splits)
  show "list_all (\<lambda>s. fst s < n) stores" by (rule a)
  show "outputs = map (slot_after stores d) [0..<n]"
    unfolding o by (rule nth_equalityI) (simp_all add: fold_stores_nth)
qed

lemma slot_after_stored:
  "(i, v) \<in> set stores \<Longrightarrow> (i, slot_after stores d i) \<in> set stores"
proof -
  assume a: "(i, v) \<in> set stores"
  then have ne: "filter (\<lambda>s. fst s = i) stores \<noteq> []" by (force simp: filter_empty_conv)
  then have "last (filter (\<lambda>s. fst s = i) stores) \<in> set (filter (\<lambda>s. fst s = i) stores)"
    by (rule last_in_set)
  then have "last (filter (\<lambda>s. fst s = i) stores) \<in> set stores"
    "fst (last (filter (\<lambda>s. fst s = i) stores)) = i" by auto
  then have "(i, snd (last (filter (\<lambda>s. fst s = i) stores))) \<in> set stores"
    by (metis prod.collapse)
  moreover from ne obtain s ss where f: "filter (\<lambda>s. fst s = i) stores = s # ss"
    by (cases "filter (\<lambda>s. fst s = i) stores") auto
  then have "slot_after stores d i = snd (last (filter (\<lambda>s. fst s = i) stores))"
    unfolding slot_after_def f by simp
  ultimately show ?thesis by simp
qed

section \<open>Claims about Module::execute\<close>

lemma execute_result_stages:
  fixes R :: "('d, 'p, 'm, 'v, 'a, 't) Runtime" and M :: "('d, 'p, 'm, 'a, 't) Module"
  assumes "execute R name input M = Some (r, M')"
  shows "(\<forall>outputs. r = Inr outputs \<longrightarrow>
      (\<exists>M1 m0 m2 stores m3.
         load_method R name M = Some (Ok, M1) \<and> method_at name M1 = Some m0 \<and>
         binds_ok R input (length input) m0 \<and>
         Method_execute R (method_after R input (length input) m0) = (Ok, m2) \<and>
         Method_get_outputs R (Method_outputs_size R m2) m2 = ((Ok, stores), m3))) \<and>
    (\<forall>e. r = Inl e \<longrightarrow>
       load_method R name M = Some (Inl e, M') \<or>
       (\<exists>M1 m0 i m1.
          load_method R name M = Some (Ok, M1) \<and> method_at name M1 = Some m0 \<and>
          i < length input \<and> binds_ok R input i m0 \<and>
          Method_set_input R (input ! i) i (method_after R input i m0) = (Inl e, m1) \<and>
          method_at name M' = Some m1) \<or>
       (\<exists>M1 m0 m2.
          load_method R name M = Some (Ok, M1) \<and> method_at name M1 = Some m0 \<and>
          binds_ok R input (length input) m0 \<and>
          Method_execute R (method_after R input (length input) m0) = (Inl e, m2)) \<or>
       (\<exists>M1 m0 m2 stores m3.
          load_method R name M = Some (Ok, M1) \<and> method_at name M1 = Some m0 \<and>
          binds_ok R input (length input) m0 \<and>
          Method_execute R (method_after R input (length input) m0) = (Ok, m2) \<and>
          Method_get_outputs R (Method_outputs_size R m2) m2 = ((Inl e, stores), m3)))"
  using assms
proof (cases rule: execute_cases)
  case (load_method_failed e)
  then show ?thesis by simp
next
  case (bind_failed M1 m0 e m1)
  from bind_inputs_0_char[OF bind_failed(3)] obtain i where
    "i < length input" "binds_ok R input i m0"
    "Method_set_input R (input ! i) i (method_after R input i m0) = (Inl e, m1)"
    by auto
  moreover have "method_at name M' = Some m1"
    using bind_failed(2,5) by (simp add: method_at_update)
  ultimately show ?thesis using bind_failed(1,2,4) by blast
next
  case (run_failed M1 m0 m1 e m2)
  from bind_inputs_0_char[OF run_failed(3)] have
    "binds_ok R input (length input) m0" "m1 = method_after R input (length input) m0"
    by auto
  with run_failed show ?thesis by blast
next
  case (get_outputs_failed M1 m0 m1 m2 e stores m3)
  from bind_inputs_0_char[OF get_outputs_failed(3)] have
    "binds_ok R input (length input) m0" "m1 = method_after R input (length input) m0"
    by auto
  with get_outputs_failed show ?thesis by blast
next
  case (succeeded M1 m0 m1 m2 stores m3 outputs)
  from bind_inputs_0_char[OF succeeded(3)] have
    "binds_ok R input (length input) m0" "m1 = method_after R input (length input) m0"
    by auto
  with succeeded show ?thesis by blast
qed

text \<open>
  C1. Whenever \<^verbatim>\<open>execute\<close> returns, its result is decided by the first stage that
  fails. It returns an output sequence only if \<^verbatim>\<open>load_method\<close> returned
  \<^verbatim>\<open>Error::Ok\<close>, every \<^verbatim>\<open>set_input\<close> in the order of the inputs did, the run of the
  method did and \<^verbatim>\<open>get_outputs\<close> did. When it returns an error \<open>e\<close> (a result that
  carries no outputs), then \<open>e\<close> is, unchanged, the error of \<^verbatim>\<open>load_method\<close>; or of
  the first \<^verbatim>\<open>set_input\<close> that failed, at an index \<open>i\<close> before which all inputs were
  bound, and the method in the cache is then the one that call left behind, with the inputs
  before \<open>i\<close> bound (nothing is rolled back); or of the run, all inputs bound; or of
  \<^verbatim>\<open>get_outputs\<close>, after a successful run. Conversely, when one of these stages is
  the first to fail, \<^verbatim>\<open>execute\<close> returns that stage's error (the index of the loop
  staying within \<^verbatim>\<open>int\<close>, and \<^verbatim>\<open>get_outputs\<close> storing inside the array).
\<close>

theorem execute_first_failure:
  fixes R :: "('d, 'p, 'm, 'v, 'a, 't) Runtime" and M :: "('d, 'p, 'm, 'a, 't) Module"
  shows "(execute R name input M = Some (r, M') \<longrightarrow>
      (\<forall>outputs. r = Inr outputs \<longrightarrow>
        (\<exists>M1 m0 m2 stores m3.
           load_method R name M = Some (Ok, M1) \<and> method_at name M1 = Some m0 \<and>
           binds_ok R input (length input) m0 \<and>
           Method_execute R (method_after R input (length input) m0) = (Ok, m2) \<and>
           Method_get_outputs R (Method_outputs_size R m2) m2 = ((Ok, stores), m3))) \<and>
      (\<forall>e. r = Inl e \<longrightarrow>
         load_method R name M = Some (Inl e, M') \<or>
         (\<exists>M1 m0 i m1.
            load_method R name M = Some (Ok, M1) \<and> method_at name M1 = Some m0 \<and>
            i < length input \<and> binds_ok R input i m0 \<and>
            Method_set_input R (input ! i) i (method_after R input i m0) = (Inl e, m1) \<and>
            method_at name M' = Some m1) \<or>
         (\<exists>M1 m0 m2.
            load_method R name M = Some (Ok, M1) \<and> method_at name M1 = Some m0 \<and>
            binds_ok R input (length input) m0 \<and>
            Method_execute R (method_after R input (length input) m0) = (Inl e, m2)) \<or>
         (\<exists>M1 m0 m2 stores m3.
            load_method R name M = Some (Ok, M1) \<and> method_at name M1 = Some m0 \<and>
            binds_ok R input (length input) m0 \<and>
            Method_execute R (method_after R input (length input) m0) = (Ok, m2) \<and>
            Method_get_outputs R (Method_outputs_size R m2) m2 = ((Inl e, stores), m3)))) \<and>
    (load_method R name M = Some (Inl e, M1) \<longrightarrow>
       execute R name input M = Some (Inl e, M1)) \<and>
    (load_method R name M = Some (Ok, M1) \<and> method_at name M1 = Some m0 \<and>
     i < length input \<and> i \<le> INT_MAX \<and> binds_ok R input i m0 \<and>
     Method_set_input R (input ! i) i (method_after R input i m0) = (Inl e, m1) \<longrightarrow>
       execute R name input M = Some (Inl e, method_update name m1 M1)) \<and>
    (load_method R name M = Some (Ok, M1) \<and> method_at name M1 = Some m0 \<and>
     length input \<le> INT_MAX \<and> binds_ok R input (length input) m0 \<and>
     Method_execute R (method_after R input (length input) m0) = (Inl e, m2) \<longrightarrow>
       execute R name input M = Some (Inl e, method_update name m2 M1)) \<and>
    (load_method R name M = Some (Ok, M1) \<and> method_at name M1 = Some m0 \<and>
     length input \<le> INT_MAX \<and> binds_ok R input (length input) m0 \<and>
     Method_execute R (method_after R input (length input) m0) = (Ok, m2) \<and>
     Method_get_outputs R (Method_outputs_size R m2) m2 = ((Inl e, stores), m3) \<and>
     list_all (\<lambda>s. fst s < Method_outputs_size R m2) stores \<longrightarrow>
       execute R name input M = Some (Inl e, method_update name m3 M1))"
proof (intro conjI impI)
  assume "execute R name input M = Some (r, M')"
  from execute_result_stages[OF this, THEN conjunct1]
  show "\<forall>outputs. r = Inr outputs \<longrightarrow>
        (\<exists>M1 m0 m2 stores m3.
           load_method R name M = Some (Ok, M1) \<and> method_at name M1 = Some m0 \<and>
           binds_ok R input (length input) m0 \<and>
           Method_execute R (method_after R input (length input) m0) = (Ok, m2) \<and>
           Method_get_outputs R (Method_outputs_size R m2) m2 = ((Ok, stores), m3))" .
next
  assume "execute R name input M = Some (r, M')"
  from execute_result_stages[OF this, THEN conjunct2]
  show "\<forall>e. r = Inl e \<longrightarrow>
         load_method R name M = Some (Inl e, M') \<or>
         (\<exists>M1 m0 i m1.
            load_method R name M = Some (Ok, M1) \<and> method_at name M1 = Some m0 \<and>
            i < length input \<and> binds_ok R input i m0 \<and>
            Method_set_input R (input ! i) i (method_after R input i m0) = (Inl e, m1) \<and>
            method_at name M' = Some m1) \<or>
         (\<exists>M1 m0 m2.
            load_method R name M = Some (Ok, M1) \<and> method_at name M1 = Some m0 \<and>
            binds_ok R input (length input) m0 \<and>
            Method_execute R (method_after R input (length input) m0) = (Inl e, m2)) \<or>
         (\<exists>M1 m0 m2 stores m3.
            load_method R name M = Some (Ok, M1) \<and> method_at name M1 = Some m0 \<and>
            binds_ok R input (length input) m0 \<and>
            Method_execute R (method_after R input (length input) m0) = (Ok, m2) \<and>
            Method_get_outputs R (Method_outputs_size R m2) m2 = ((Inl e, stores), m3))" .
next
  assume "load_method R name M = Some (Inl e, M1)"
  then show "execute R name input M = Some (Inl e, M1)" by (simp add: execute_def)
next
  assume a: "load_method R name M = Some (Ok, M1) \<and> method_at name M1 = Some m0 \<and>
     i < length input \<and> i \<le> INT_MAX \<and> binds_ok R input i m0 \<and>
     Method_set_input R (input ! i) i (method_after R input i m0) = (Inl e, m1)"
  then have "bind_inputs R input 0 m0 = Some (Inl e, m1)"
    using bind_inputs_fail[of i input R m0 e m1 0] by simp
  with a show "execute R name input M = Some (Inl e, method_update name m1 M1)"
    by (simp add: execute_def)
next
  assume a: "load_method R name M = Some (Ok, M1) \<and> method_at name M1 = Some m0 \<and>
     length input \<le> INT_MAX \<and> binds_ok R input (length input) m0 \<and>
     Method_execute R (method_after R input (length input) m0) = (Inl e, m2)"
  then have "bind_inputs R input 0 m0 = Some (Ok, method_after R input (length input) m0)"
    using bind_inputs_ok[of R input m0 0] by simp
  with a show "execute R name input M = Some (Inl e, method_update name m2 M1)"
    by (simp add: execute_def)
next
  assume a: "load_method R name M = Some (Ok, M1) \<and> method_at name M1 = Some m0 \<and>
     length input \<le> INT_MAX \<and> binds_ok R input (length input) m0 \<and>
     Method_execute R (method_after R input (length input) m0) = (Ok, m2) \<and>
     Method_get_outputs R (Method_outputs_size R m2) m2 = ((Inl e, stores), m3) \<and>
     list_all (\<lambda>s. fst s < Method_outputs_size R m2) stores"
  then have b: "bind_inputs R input 0 m0 = Some (Ok, method_after R input (length input) m0)"
    using bind_inputs_ok[of R input m0 0] by simp
  from a have "apply_stores stores (replicate (Method_outputs_size R m2) (EValue_default R)) \<noteq> None"
    by (simp add: apply_stores_def)
  with a b show "execute R name input M = Some (Inl e, method_update name m3 M1)"
    by (auto simp: execute_def Let_def)
qed

text \<open>
  C7. When \<^verbatim>\<open>execute\<close> returns outputs, they are a sequence built in this call: a
  vector of default values as long as \<^verbatim>\<open>outputs_size()\<close> of the method after its run,
  into which \<^verbatim>\<open>get_outputs\<close> has stored. Its length is that output arity, every slot
  holds the last value \<^verbatim>\<open>get_outputs\<close> stored there (the default value where it stored
  nothing), and every store of \<^verbatim>\<open>get_outputs\<close> went to a slot of the sequence. Nothing
  of it comes from the module or from an earlier call.
\<close>

theorem execute_outputs_fresh:
  fixes R :: "('d, 'p, 'm, 'v, 'a, 't) Runtime" and M :: "('d, 'p, 'm, 'a, 't) Module"
  assumes "execute R name input M = Some (Inr outputs, M')"
  shows "\<exists>M1 m0 m2 stores m3.
    load_method R name M = Some (Ok, M1) \<and> method_at name M1 = Some m0 \<and>
    Method_execute R (method_after R input (length input) m0) = (Ok, m2) \<and>
    Method_get_outputs R (Method_outputs_size R m2) m2 = ((Ok, stores), m3) \<and>
    length outputs = Method_outputs_size R m2 \<and>
    outputs = map (slot_after stores (EValue_default R)) [0..<Method_outputs_size R m2] \<and>
    (\<forall>i v. (i, v) \<in> set stores \<longrightarrow> i < length outputs \<and> (i, outputs ! i) \<in> set stores)"
  using assms
proof (cases rule: execute_cases)
  case (succeeded M1 m0 m1 m2 stores m3 outs)
  from bind_inputs_0_char[OF succeeded(3)] have
    m1: "m1 = method_after R input (length input) m0" by auto
  from succeeded(7) have outs: "outs = outputs" by simp
  note a = apply_stores_Some[OF succeeded(6)[unfolded outs]]
  have len: "length outputs = Method_outputs_size R m2" by (simp add: a(1))
  have st: "\<forall>i v. (i, v) \<in> set stores \<longrightarrow> i < length outputs \<and> (i, outputs ! i) \<in> set stores"
  proof (intro allI impI)
    fix i v assume iv: "(i, v) \<in> set stores"
    with a(2) have i: "i < Method_outputs_size R m2" by (auto simp: list_all_iff)
    then have "outputs ! i = slot_after stores (EValue_default R) i" by (simp add: a(1))
    with slot_after_stored[OF iv] i len
    show "i < length outputs \<and> (i, outputs ! i) \<in> set stores" by simp
  qed
  from succeeded(1,2,4,5) m1 len a(1) st show ?thesis by blast
qed simp_all

theorem execute_first_failure_witness:
  "map_option fst (execute stub_runtime ''forward'' [7, 8] stub_module) = Some (Inr [7, 8]) \<and>
   (\<exists>M1 m0 m2 stores m3.
      load_method stub_runtime ''forward'' stub_module = Some (Ok, M1) \<and>
      method_at ''forward'' M1 = Some m0 \<and> binds_ok stub_runtime [7, 8] (length [7, 8 :: int]) m0 \<and>
      Method_execute stub_runtime (method_after stub_runtime [7, 8] (length [7, 8 :: int]) m0) = (Ok, m2) \<and>
      Method_get_outputs stub_runtime (Method_outputs_size stub_runtime m2) m2 =
        ((Ok, stores), m3)) \<and>
   map_option fst (execute stub_runtime ''forward'' [7, 8, 9] stub_module) =
     Some (Inl InputBindingError) \<and>
   map_option (\<lambda>x. map_option slots (method_at ''forward'' (snd x)))
     (execute stub_runtime ''forward'' [7, 8, 9] stub_module) = Some (Some [Some 7, Some 8]) \<and>
   (\<exists>M1 m0 i m1.
      load_method stub_runtime ''forward'' stub_module = Some (Ok, M1) \<and>
      method_at ''forward'' M1 = Some m0 \<and> i < length [7, 8, 9 :: int] \<and> binds_ok stub_runtime [7, 8, 9] i m0 \<and>
      Method_set_input stub_runtime ([7, 8, 9] ! i) i (method_after stub_runtime [7, 8, 9] i m0) =
        (Inl InputBindingError, m1))"
proof -
  let ?ok = "execute stub_runtime ''forward'' [7, 8] stub_module"
  let ?bad = "execute stub_runtime ''forward'' [7, 8, 9] stub_module"
  have r1: "map_option fst ?ok = Some (Inr [7, 8])" by (simp add: ev)
  then have e1: "?ok = Some (Inr [7, 8], snd (the ?ok))" by (cases ?ok) auto
  have r2: "map_option fst ?bad = Some (Inl InputBindingError)" by (simp add: ev)
  then have e2: "?bad = Some (Inl InputBindingError, snd (the ?bad))" by (cases ?bad) auto
  have r3: "map_option (\<lambda>x. map_option slots (method_at ''forward'' (snd x))) ?bad =
      Some (Some [Some 7, Some 8])" by (simp add: ev)
  have lm: "map_option fst (load_method stub_runtime ''forward'' stub_module) = Some Ok"
    by (simp add: ev)
  from execute_first_failure[THEN conjunct1, THEN mp, OF e1, THEN conjunct1, rule_format, OF refl]
  have w1: "\<exists>M1 m0 m2 stores m3.
      load_method stub_runtime ''forward'' stub_module = Some (Ok, M1) \<and>
      method_at ''forward'' M1 = Some m0 \<and> binds_ok stub_runtime [7, 8] (length [7, 8 :: int]) m0 \<and>
      Method_execute stub_runtime (method_after stub_runtime [7, 8] (length [7, 8 :: int]) m0) = (Ok, m2) \<and>
      Method_get_outputs stub_runtime (Method_outputs_size stub_runtime m2) m2 =
        ((Ok, stores), m3)" .
  from execute_first_failure[THEN conjunct1, THEN mp, OF e2, THEN conjunct2, rule_format, OF refl]
  have d:
    "load_method stub_runtime ''forward'' stub_module =
       Some (Inl InputBindingError, snd (the ?bad)) \<or>
     (\<exists>M1 m0 i m1.
        load_method stub_runtime ''forward'' stub_module = Some (Ok, M1) \<and>
        method_at ''forward'' M1 = Some m0 \<and> i < length [7, 8, 9 :: int] \<and> binds_ok stub_runtime [7, 8, 9] i m0 \<and>
        Method_set_input stub_runtime ([7, 8, 9] ! i) i (method_after stub_runtime [7, 8, 9] i m0) =
          (Inl InputBindingError, m1) \<and>
        method_at ''forward'' (snd (the ?bad)) = Some m1) \<or>
     (\<exists>M1 m0 m2.
        load_method stub_runtime ''forward'' stub_module = Some (Ok, M1) \<and>
        method_at ''forward'' M1 = Some m0 \<and> binds_ok stub_runtime [7, 8, 9] (length [7, 8, 9 :: int]) m0 \<and>
        Method_execute stub_runtime (method_after stub_runtime [7, 8, 9] (length [7, 8, 9 :: int]) m0) =
          (Inl InputBindingError, m2)) \<or>
     (\<exists>M1 m0 m2 stores m3.
        load_method stub_runtime ''forward'' stub_module = Some (Ok, M1) \<and>
        method_at ''forward'' M1 = Some m0 \<and> binds_ok stub_runtime [7, 8, 9] (length [7, 8, 9 :: int]) m0 \<and>
        Method_execute stub_runtime (method_after stub_runtime [7, 8, 9] (length [7, 8, 9 :: int]) m0) = (Ok, m2) \<and>
        Method_get_outputs stub_runtime (Method_outputs_size stub_runtime m2) m2 =
          ((Inl InputBindingError, stores), m3))" .
  have n1: "load_method stub_runtime ''forward'' stub_module \<noteq>
       Some (Inl InputBindingError, snd (the ?bad))" using lm by auto
  have n3: "\<And>M1 m0. load_method stub_runtime ''forward'' stub_module = Some (Ok, M1) \<Longrightarrow>
      method_at ''forward'' M1 = Some m0 \<Longrightarrow> \<not> binds_ok stub_runtime [7, 8, 9] (length [7, 8, 9 :: int]) m0"
    by (auto simp: ev2)
  from d n1 n3 have w2: "\<exists>M1 m0 i m1.
      load_method stub_runtime ''forward'' stub_module = Some (Ok, M1) \<and>
      method_at ''forward'' M1 = Some m0 \<and> i < length [7, 8, 9 :: int] \<and> binds_ok stub_runtime [7, 8, 9] i m0 \<and>
      Method_set_input stub_runtime ([7, 8, 9] ! i) i (method_after stub_runtime [7, 8, 9] i m0) =
        (Inl InputBindingError, m1)" by blast
  from r1 w1 r2 r3 w2 show ?thesis by (intro conjI)
qed

theorem execute_outputs_fresh_witness:
  "map_option fst (execute stub_runtime ''forward'' [7, 8] stub_module) = Some (Inr [7, 8]) \<and>
   (\<exists>m2 stores m3.
      Method_get_outputs stub_runtime (Method_outputs_size stub_runtime m2) m2 =
        ((Ok, stores), m3) \<and>
      length [7, 8 :: int] = Method_outputs_size stub_runtime m2 \<and>
      [7, 8] = map (slot_after stores (EValue_default stub_runtime))
                 [0..<Method_outputs_size stub_runtime m2])"
proof -
  let ?ok = "execute stub_runtime ''forward'' [7, 8] stub_module"
  have r1: "map_option fst ?ok = Some (Inr [7, 8])" by (simp add: ev)
  then have e1: "?ok = Some (Inr [7, 8], snd (the ?ok))" by (cases ?ok) auto
  from execute_outputs_fresh[OF e1] obtain M1 m0 m2 stores m3 where h:
    "load_method stub_runtime ''forward'' stub_module = Some (Ok, M1) \<and>
     method_at ''forward'' M1 = Some m0 \<and>
     Method_execute stub_runtime (method_after stub_runtime [7, 8] (length [7, 8 :: int]) m0) =
       (Ok, m2) \<and>
     Method_get_outputs stub_runtime (Method_outputs_size stub_runtime m2) m2 =
       ((Ok, stores), m3) \<and>
     length [7, 8 :: int] = Method_outputs_size stub_runtime m2 \<and>
     [7, 8] = map (slot_after stores (EValue_default stub_runtime))
                [0..<Method_outputs_size stub_runtime m2] \<and>
     (\<forall>i v. (i, v) \<in> set stores \<longrightarrow> i < length [7, 8 :: int] \<and> (i, [7, 8] ! i) \<in> set stores)"
    by (elim exE) (rule that)
  have g1: "Method_get_outputs stub_runtime (Method_outputs_size stub_runtime m2) m2 =
       ((Ok, stores), m3)" using h by (elim conjE)
  have g2: "length [7, 8 :: int] = Method_outputs_size stub_runtime m2" using h by (elim conjE)
  have g3: "[7, 8] = map (slot_after stores (EValue_default stub_runtime))
                [0..<Method_outputs_size stub_runtime m2]" using h by (elim conjE)
  show ?thesis
    apply (intro conjI)
     apply (rule r1)
    apply (rule exI[of _ m2], rule exI[of _ stores], rule exI[of _ m3])
    apply (intro conjI g1 g2 g3)
    done
qed

lemma binds_ok_first_failure:
  "\<not> binds_ok R input k m \<Longrightarrow>
     \<exists>j<k. binds_ok R input j m \<and>
       fst (Method_set_input R (input ! j) j (method_after R input j m)) \<noteq> Ok"
proof (induction k)
  case 0
  then show ?case by simp
next
  case (Suc k)
  show ?case
  proof (cases "binds_ok R input k m")
    case True
    with Suc.prems have "fst (Method_set_input R (input ! k) k (method_after R input k m)) \<noteq> Ok"
      by (simp add: binds_ok_Suc)
    with True show ?thesis by blast
  next
    case False
    from Suc.IH[OF False] obtain j where "j < k" "binds_ok R input j m"
      "fst (Method_set_input R (input ! j) j (method_after R input j m)) \<noteq> Ok" by blast
    then show ?thesis using less_Suc_eq by blast
  qed
qed

lemma apply_stores_eq:
  assumes "list_all (\<lambda>s. fst s < n) stores"
  shows "apply_stores stores (replicate n d) = Some (map (slot_after stores d) [0..<n])"
proof -
  have "fold (\<lambda>s xs. xs[fst s := snd s]) stores (replicate n d) = map (slot_after stores d) [0..<n]"
    by (rule nth_equalityI) (simp_all add: fold_stores_nth)
  with assms show ?thesis by (simp add: apply_stores_def)
qed

lemma execute_bind_failure:
  assumes "load_method R name M = Some (Ok, M1)" and "method_at name M1 = Some m0"
    and "bind_inputs R input 0 m0 = Some (Inl e, m1)"
  shows "execute R name input M = Some (Inl e, method_update name m1 M1)"
  using assms by (simp add: execute_def)

text \<open>
  C2, as amended. \<^verbatim>\<open>Module::execute\<close> compares the number of inputs with nothing: it
  calls \<^verbatim>\<open>set_input\<close> once for each supplied input. Let the method be loaded and let
  \<open>K\<close> be its input arity, in that it rejects the input at index \<open>K\<close> with an
  \<open>InputBindingError\<close>, the error of any earlier binding failure. With more than \<open>K\<close>
  inputs \<^verbatim>\<open>execute\<close> returns an \<open>InputBindingError\<close> and no outputs: no input is
  dropped silently. With fewer than \<open>K\<close> inputs only the supplied slots are bound, the
  others are left as they were (nothing is padded), and when these bindings, the run and the
  retrieval of the outputs succeed, \<^verbatim>\<open>execute\<close> returns the outputs.
\<close>

theorem execute_input_arity:
  fixes R :: "('d, 'p, 'm, 'v, 'a, 't) Runtime" and M :: "('d, 'p, 'm, 'a, 't) Module"
  assumes "load_method R name M = Some (Ok, M1)" and "method_at name M1 = Some m0"
    and "K \<le> INT_MAX"
  shows "(K < length input \<and>
      (\<forall>i<K. \<forall>e m1. Method_set_input R (input ! i) i (method_after R input i m0) = (Inl e, m1)
          \<longrightarrow> e = InputBindingError) \<and>
      (\<exists>m1. Method_set_input R (input ! K) K (method_after R input K m0) =
               (Inl InputBindingError, m1))
      \<longrightarrow> (\<exists>M'. execute R name input M = Some (Inl InputBindingError, M'))) \<and>
    (length input < K \<and> binds_ok R input (length input) m0 \<and>
      Method_execute R (method_after R input (length input) m0) = (Ok, m2) \<and>
      Method_get_outputs R (Method_outputs_size R m2) m2 = ((Ok, stores), m3) \<and>
      list_all (\<lambda>s. fst s < Method_outputs_size R m2) stores
      \<longrightarrow> execute R name input M =
            Some (Inr (map (slot_after stores (EValue_default R)) [0..<Method_outputs_size R m2]),
                  method_update name m3 M1))"
proof (intro conjI impI)
  assume a: "K < length input \<and>
      (\<forall>i<K. \<forall>e m1. Method_set_input R (input ! i) i (method_after R input i m0) = (Inl e, m1)
          \<longrightarrow> e = InputBindingError) \<and>
      (\<exists>m1. Method_set_input R (input ! K) K (method_after R input K m0) =
               (Inl InputBindingError, m1))"
  then have KL: "K < length input" by simp
  from a have errs: "\<And>i e m1. i < K \<Longrightarrow>
      Method_set_input R (input ! i) i (method_after R input i m0) = (Inl e, m1) \<Longrightarrow>
      e = InputBindingError" by blast
  from a obtain mK where rej: "Method_set_input R (input ! K) K (method_after R input K m0) =
               (Inl InputBindingError, mK)" by blast
  have "\<exists>m1. bind_inputs R input 0 m0 = Some (Inl InputBindingError, m1)"
  proof (cases "binds_ok R input K m0")
    case True
    from bind_inputs_fail[OF KL True rej assms(3), of 0] show ?thesis by auto
  next
    case False
    from binds_ok_first_failure[OF False] obtain j where j: "j < K" "binds_ok R input j m0"
      "fst (Method_set_input R (input ! j) j (method_after R input j m0)) \<noteq> Ok" by blast
    then obtain e m1 where f: "Method_set_input R (input ! j) j (method_after R input j m0) =
        (Inl e, m1)"
      by (cases "Method_set_input R (input ! j) j (method_after R input j m0)";
          cases "fst (Method_set_input R (input ! j) j (method_after R input j m0))") auto
    from errs[OF j(1) f] have e: "e = InputBindingError" .
    from j(1) KL have jl: "j < length input" by simp
    from j(1) assms(3) have ji: "j \<le> INT_MAX" by simp
    from bind_inputs_fail[OF jl j(2) f ji, of 0] e show ?thesis by auto
  qed
  then obtain m1 where "bind_inputs R input 0 m0 = Some (Inl InputBindingError, m1)" by blast
  from execute_bind_failure[OF assms(1,2) this]
  show "\<exists>M'. execute R name input M = Some (Inl InputBindingError, M')" by blast
next
  assume a: "length input < K \<and> binds_ok R input (length input) m0 \<and>
      Method_execute R (method_after R input (length input) m0) = (Ok, m2) \<and>
      Method_get_outputs R (Method_outputs_size R m2) m2 = ((Ok, stores), m3) \<and>
      list_all (\<lambda>s. fst s < Method_outputs_size R m2) stores"
  then have "length input \<le> INT_MAX" using assms(3) by simp
  with a have b: "bind_inputs R input 0 m0 =
      Some (Ok, method_after R input (length input) m0)"
    using bind_inputs_ok[of R input m0 0] by simp
  from a have st: "apply_stores stores (replicate (Method_outputs_size R m2) (EValue_default R)) =
      Some (map (slot_after stores (EValue_default R)) [0..<Method_outputs_size R m2])"
    by (simp add: apply_stores_eq)
  from assms(1,2) b a st
  show "execute R name input M =
      Some (Inr (map (slot_after stores (EValue_default R)) [0..<Method_outputs_size R m2]),
            method_update name m3 M1)"
    by (simp add: execute_def Let_def)
qed

text \<open>
  C2, as stated, fails for fewer inputs. The stub method has two input slots and rejects
  the index 2 with an \<open>InputBindingError\<close>; \<^verbatim>\<open>execute\<close> with the single input 7
  returns the outputs \<open>[7, 0]\<close>.
\<close>

theorem execute_fewer_inputs_counterexample:
  "map_option fst (load_method stub_runtime ''forward'' stub_module) = Some Ok \<and>
   map_option slots
     (method_at ''forward'' (snd (the (load_method stub_runtime ''forward'' stub_module)))) =
     Some [None, None] \<and>
   fst (Method_set_input stub_runtime 9 2
     (the (method_at ''forward'' (snd (the (load_method stub_runtime ''forward'' stub_module)))))) =
     Inl InputBindingError \<and>
   length [7 :: int] < 2 \<and>
   map_option fst (execute stub_runtime ''forward'' [7]
     (snd (the (load_method stub_runtime ''forward'' stub_module)))) = Some (Inr [7, 0])"
  by (simp add: ev)

theorem execute_input_arity_witness:
  "(\<exists>M'. execute stub_runtime ''forward'' [7, 8, 9] stub_module =
            Some (Inl InputBindingError, M')) \<and>
   map_option fst (execute stub_runtime ''forward'' [7] stub_module) = Some (Inr [7, 0])"
proof -
  let ?M1 = "snd (the (load_method stub_runtime ''forward'' stub_module))"
  let ?m0 = "\<lparr>slots = [None, None], results = [0, 0], output_ptrs = [None, None]\<rparr>"
  let ?m2 = "\<lparr>slots = [Some 7, None], results = [7, 0], output_ptrs = [None, None]\<rparr>"
  have "map_option fst (load_method stub_runtime ''forward'' stub_module) = Some Ok"
    by (simp add: ev)
  then have l: "load_method stub_runtime ''forward'' stub_module = Some (Ok, ?M1)"
    by (cases "load_method stub_runtime ''forward'' stub_module") auto
  have m: "method_at ''forward'' ?M1 = Some ?m0" by (simp add: ev)
  have k: "2 \<le> INT_MAX" by (simp add: INT_MAX_def)
  have h1: "2 < length [7, 8, 9 :: int]" by simp
  have h2: "\<forall>i<2. \<forall>e m1. Method_set_input stub_runtime ([7, 8, 9] ! i) i
        (method_after stub_runtime [7, 8, 9] i ?m0) = (Inl e, m1) \<longrightarrow> e = InputBindingError"
    by (auto simp: stub_runtime_def split: if_splits)
  have h3: "\<exists>m1. Method_set_input stub_runtime ([7, 8, 9] ! 2) 2
        (method_after stub_runtime [7, 8, 9] 2 ?m0) = (Inl InputBindingError, m1)"
    by (simp add: stub_runtime_def method_after_def upt_rec)
  from execute_input_arity[OF l m k, of "[7, 8, 9]", THEN conjunct1] h1 h2 h3
  have w1: "\<exists>M'. execute stub_runtime ''forward'' [7, 8, 9] stub_module =
            Some (Inl InputBindingError, M')" by blast
  have g1: "length [7 :: int] < 2" by simp
  have g2: "binds_ok stub_runtime [7] (length [7 :: int]) ?m0"
    by (simp add: stub_runtime_def binds_ok_def method_after_def upt_rec)
  have g3: "Method_execute stub_runtime (method_after stub_runtime [7] (length [7 :: int]) ?m0) =
      (Ok, ?m2)"
    by (simp add: stub_runtime_def method_after_def upt_rec)
  have g4: "Method_get_outputs stub_runtime (Method_outputs_size stub_runtime ?m2) ?m2 =
      ((Ok, [(0, 7), (1, 0)]), ?m2)"
    by (simp add: stub_runtime_def)
  have g5: "list_all (\<lambda>s. fst s < Method_outputs_size stub_runtime ?m2) [(0, 7 :: int), (1, 0)]"
    by (simp add: stub_runtime_def)
  from execute_input_arity[OF l m k, of "[7]" ?m2 "[(0, 7), (1, 0)]" ?m2, THEN conjunct2]
    g1 g2 g3 g4 g5
  have "execute stub_runtime ''forward'' [7] stub_module =
      Some (Inr (map (slot_after [(0, 7), (1, 0)] (EValue_default stub_runtime))
                   [0..<Method_outputs_size stub_runtime ?m2]),
            method_update ''forward'' ?m2 ?M1)" by blast
  then have w2: "map_option fst (execute stub_runtime ''forward'' [7] stub_module) =
      Some (Inr [7, 0])"
    by (simp add: stub_runtime_def slot_after_def upt_rec)
  from w1 w2 show ?thesis by (intro conjI)
qed

section \<open>Claims about Module::method_names and Module::set_output_data_ptr\<close>

lemma method_names_loop_Some:
  "method_names_loop R p count k acc = Some S \<Longrightarrow>
     S = acc \<union> {n. \<exists>i. k \<le> i \<and> i < count \<and> Program_get_method_name R p i = Inr n}"
proof (induction R p count k acc rule: method_names_loop.induct)
  case (1 R p count k acc)
  show ?case
  proof (cases "k < count")
    case False
    with "1.prems" have "S = acc" by (simp add: method_names_loop.simps)
    with False show ?thesis by auto
  next
    case True
    from True "1.prems" obtain n where
      n: "Program_get_method_name R p k = Inr n" and ni: "k \<noteq> INT_MAX" and
      rec: "method_names_loop R p count (k + 1) (insert n acc) = Some S"
      by (subst (asm) method_names_loop.simps) (auto split: sum.splits if_splits)
    from "1.IH"[OF True n ni rec] have
      S: "S = insert n acc \<union> {n. \<exists>i. k + 1 \<le> i \<and> i < count \<and> Program_get_method_name R p i = Inr n}" .
    have "{n. \<exists>i. k \<le> i \<and> i < count \<and> Program_get_method_name R p i = Inr n} =
        insert n {n. \<exists>i. k + 1 \<le> i \<and> i < count \<and> Program_get_method_name R p i = Inr n}"
    proof (intro set_eqI iffI)
      fix x assume "x \<in> {n. \<exists>i. k \<le> i \<and> i < count \<and> Program_get_method_name R p i = Inr n}"
      then obtain i where i: "k \<le> i" "i < count" "Program_get_method_name R p i = Inr x" by blast
      show "x \<in> insert n {n. \<exists>i. k + 1 \<le> i \<and> i < count \<and> Program_get_method_name R p i = Inr n}"
      proof (cases "i = k")
        case True
        with i n show ?thesis by simp
      next
        case False
        with i have "k + 1 \<le> i" by simp
        with i show ?thesis by blast
      qed
    next
      fix x assume "x \<in> insert n {n. \<exists>i. k + 1 \<le> i \<and> i < count \<and> Program_get_method_name R p i = Inr n}"
      then consider "x = n" | i where "k + 1 \<le> i" "i < count" "Program_get_method_name R p i = Inr x"
        by blast
      then show "x \<in> {n. \<exists>i. k \<le> i \<and> i < count \<and> Program_get_method_name R p i = Inr n}"
      proof cases
        case 1
        with n True show ?thesis by blast
      next
        case 2
        then have "k \<le> i" by simp
        with 2 show ?thesis by blast
      qed
    qed
    with S show ?thesis by simp
  qed
qed

lemma method_names_loop_total:
  assumes "\<forall>i<count. \<exists>n. Program_get_method_name R p i = Inr n" and "count \<le> INT_MAX"
  shows "k \<le> count \<Longrightarrow> \<exists>S. method_names_loop R p count k acc = Some S"
proof (induction "count - k" arbitrary: k acc)
  case 0
  then show ?case by (simp add: method_names_loop.simps)
next
  case (Suc d)
  then have kc: "k < count" and d: "d = count - Suc k" and le: "Suc k \<le> count" by simp_all
  from assms(1) kc obtain n where n: "Program_get_method_name R p k = Inr n" by blast
  from kc assms(2) have ni: "k \<noteq> INT_MAX" by simp
  from Suc.hyps(1)[OF d le, of "insert n acc"] kc n ni show ?case
    by (subst method_names_loop.simps) simp
qed

text \<open>
  C8. A module constructed from a path or from a data loader is not loaded.
  \<^verbatim>\<open>method_names\<close> calls \<^verbatim>\<open>load\<close> once: whenever it returns, it leaves the module,
  the record of calls included, exactly as that one \<^verbatim>\<open>load\<close> leaves it; it returns an
  error exactly when that \<^verbatim>\<open>load\<close> does, and then the same error; and a set it returns
  holds exactly the names the program gives for the indices below its method count. It does
  return: with the error when \<^verbatim>\<open>load\<close> fails, and with the set when \<^verbatim>\<open>load\<close>
  succeeds on a program that has a name for every index below its count (the contract of
  \<^verbatim>\<open>Program::get_method_name\<close>, spec 4.3) and whose count fits the \<^verbatim>\<open>int\<close> index of
  the loop.
\<close>

theorem method_names_forces_load:
  fixes R :: "('d, 'p, 'm, 'v, 'a, 't) Runtime" and M :: "('d, 'p, 'm, 'a, 't) Module"
  shows "\<not> is_loaded (Module_of_file_path path mode a1 a2 tracer :: ('d, 'p, 'm, 'a, 't) Module) \<and>
    \<not> is_loaded (Module_of_data_loader loader a1 a2 tracer :: ('d, 'p, 'm, 'a, 't) Module) \<and>
    (method_names R M = Some (r, M') \<longrightarrow>
       M' = snd (load R default_verification M) \<and>
       (case r of
          Inl e \<Rightarrow> fst (load R default_verification M) = Inl e
        | Inr names \<Rightarrow>
            fst (load R default_verification M) = Ok \<and>
            (\<exists>p. program M' = Some p \<and>
               names = {n. \<exists>i<Program_num_methods R p. Program_get_method_name R p i = Inr n}))) \<and>
    (fst (load R default_verification M) = Inl e \<longrightarrow>
       method_names R M = Some (Inl e, snd (load R default_verification M))) \<and>
    (fst (load R default_verification M) = Ok \<and>
     program (snd (load R default_verification M)) = Some p \<and>
     Program_num_methods R p \<le> INT_MAX \<and>
     (\<forall>i<Program_num_methods R p. \<exists>n. Program_get_method_name R p i = Inr n) \<longrightarrow>
       method_names R M =
         Some (Inr {n. \<exists>i<Program_num_methods R p. Program_get_method_name R p i = Inr n},
               snd (load R default_verification M)))"
proof (intro conjI impI)
  show "\<not> is_loaded (Module_of_file_path path mode a1 a2 tracer :: ('d, 'p, 'm, 'a, 't) Module)"
    by (simp add: is_loaded_def Module_of_file_path_def)
  show "\<not> is_loaded (Module_of_data_loader loader a1 a2 tracer :: ('d, 'p, 'm, 'a, 't) Module)"
    by (simp add: is_loaded_def Module_of_data_loader_def)
next
  assume a: "method_names R M = Some (r, M')"
  obtain lr M1 where L: "load R default_verification M = (lr, M1)"
    by (cases "load R default_verification M")
  from method_names_frame[OF a] show "M' = snd (load R default_verification M)" .
  show "case r of
          Inl e \<Rightarrow> fst (load R default_verification M) = Inl e
        | Inr names \<Rightarrow>
            fst (load R default_verification M) = Ok \<and>
            (\<exists>p. program M' = Some p \<and>
               names = {n. \<exists>i<Program_num_methods R p. Program_get_method_name R p i = Inr n})"
  proof (cases lr)
    case (Inl e)
    with a L have "r = Inl e" by (simp add: method_names_def)
    with L Inl show ?thesis by simp
  next
    case (Inr u)
    with a L obtain p S where p: "program M1 = Some p" and
      S: "method_names_loop R p (Program_num_methods R p) 0 {} = Some S" and
      r: "r = Inr S" and M': "M' = M1"
      by (auto simp: method_names_def split: option.splits)
    from method_names_loop_Some[OF S] have
      "S = {n. \<exists>i<Program_num_methods R p. Program_get_method_name R p i = Inr n}" by simp
    with p r M' L Inr show ?thesis by simp
  qed
next
  assume "fst (load R default_verification M) = Inl e"
  then show "method_names R M = Some (Inl e, snd (load R default_verification M))"
    by (cases "load R default_verification M") (simp add: method_names_def)
next
  assume a: "fst (load R default_verification M) = Ok \<and>
     program (snd (load R default_verification M)) = Some p \<and>
     Program_num_methods R p \<le> INT_MAX \<and>
     (\<forall>i<Program_num_methods R p. \<exists>n. Program_get_method_name R p i = Inr n)"
  then obtain S where S: "method_names_loop R p (Program_num_methods R p) 0 {} = Some S"
    using method_names_loop_total[of "Program_num_methods R p" R p 0 "{}"] by auto
  from method_names_loop_Some[OF S] have
    "S = {n. \<exists>i<Program_num_methods R p. Program_get_method_name R p i = Inr n}" by simp
  with a S show "method_names R M =
         Some (Inr {n. \<exists>i<Program_num_methods R p. Program_get_method_name R p i = Inr n},
               snd (load R default_verification M))"
    by (cases "load R default_verification M") (simp add: method_names_def)
qed

theorem method_names_forces_load_witness:
  "\<not> is_loaded stub_module \<and>
   method_names stub_runtime stub_module =
     Some (Inr {''forward''}, snd (load stub_runtime default_verification stub_module)) \<and>
   method_names stub_runtime
     (Module_of_file_path ''missing.pte'' File 0 1 None ::
        (string, string list, stub_method, nat, unit) Module) =
     Some (Inl AccessorConstructionError,
           snd (load stub_runtime default_verification
             (Module_of_file_path ''missing.pte'' File 0 1 None)))"
proof -
  let ?missing = "Module_of_file_path ''missing.pte'' File 0 1 None ::
        (string, string list, stub_method, nat, unit) Module"
  note t = method_names_forces_load[of "''model.pte''" File 0 1 None _ stub_runtime stub_module _ _ _
      "[''forward'']"]
  have w1: "\<not> is_loaded stub_module"
    using t[THEN conjunct1] by (simp add: stub_module_def)
  have h1: "fst (load stub_runtime default_verification stub_module) = Ok" by (simp add: ev)
  have h2: "program (snd (load stub_runtime default_verification stub_module)) = Some [''forward'']"
    by (simp add: ev)
  have h3: "Program_num_methods stub_runtime [''forward''] \<le> INT_MAX"
    by (simp add: stub_runtime_def INT_MAX_def)
  have h4: "\<forall>i<Program_num_methods stub_runtime [''forward''].
      \<exists>n. Program_get_method_name stub_runtime [''forward''] i = Inr n"
    by (simp add: stub_runtime_def)
  have s: "{n. \<exists>i<Program_num_methods stub_runtime [''forward''].
      Program_get_method_name stub_runtime [''forward''] i = Inr n} = {''forward''}"
    by (auto simp: stub_runtime_def)
  from t[THEN conjunct2, THEN conjunct2, THEN conjunct2, THEN conjunct2] h1 h2 h3 h4
  have "method_names stub_runtime stub_module =
      Some (Inr {n. \<exists>i<Program_num_methods stub_runtime [''forward''].
                   Program_get_method_name stub_runtime [''forward''] i = Inr n},
            snd (load stub_runtime default_verification stub_module))" by blast
  then have w2: "method_names stub_runtime stub_module =
     Some (Inr {''forward''}, snd (load stub_runtime default_verification stub_module))"
    by (simp only: s)
  have f: "fst (load stub_runtime default_verification ?missing) = Inl AccessorConstructionError"
    by (simp add: ev)
  from method_names_forces_load[of _ _ _ _ _ _ stub_runtime ?missing _ _ AccessorConstructionError,
      THEN conjunct2, THEN conjunct2, THEN conjunct2, THEN conjunct1] f
  have w3: "method_names stub_runtime ?missing =
     Some (Inl AccessorConstructionError, snd (load stub_runtime default_verification ?missing))"
    by blast
  from w1 w2 w3 show ?thesis by (intro conjI)
qed

lemma set_output_data_ptr_result:
  fixes R :: "('d, 'p, 'm, 'v, 'a, 't) Runtime" and M :: "('d, 'p, 'm, 'a, 't) Module"
  assumes "set_output_data_ptr R output_tensor output_index M = Some (r, M')"
  shows "\<exists>rl M1. load_method R ''forward'' M = Some (rl, M1) \<and>
    (case rl of
       Inl e \<Rightarrow> r = Inl e \<and> M' = M1
     | Inr u \<Rightarrow>
         (\<exists>holder m. methods M1 ''forward'' = Some holder \<and> the_method holder = Some m \<and>
            r = fst (Method_set_output_data_ptr R (mutable_data_ptr output_tensor)
                       (nbytes output_tensor) output_index m) \<and>
            M' = M1\<lparr>methods := (methods M1)(''forward'' \<mapsto> holder\<lparr>the_method :=
                   Some (snd (Method_set_output_data_ptr R (mutable_data_ptr output_tensor)
                                (nbytes output_tensor) output_index m))\<rparr>)\<rparr>)) \<and>
    (\<forall>name. name \<noteq> ''forward'' \<longrightarrow> methods M' name = methods M name)"
proof -
  from assms obtain rl M1 where L: "load_method R ''forward'' M = Some (rl, M1)"
    by (cases "load_method R ''forward'' M") (auto simp: set_output_data_ptr_def)
  have others: "\<forall>name. name \<noteq> ''forward'' \<longrightarrow> methods M1 name = methods M name"
    using load_method_methods(1)[OF L] by simp
  show ?thesis
  proof (cases rl)
    case (Inl e)
    with assms L have "r = Inl e" "M' = M1" by (simp_all add: set_output_data_ptr_def)
    with L Inl others show ?thesis by simp
  next
    case (Inr u)
    with L have L': "load_method R ''forward'' M = Some (Ok, M1)" by simp
    from assms L' obtain m where m: "method_at ''forward'' M1 = Some m"
      by (cases "method_at ''forward'' M1") (auto simp: set_output_data_ptr_def)
    then obtain holder where h: "methods M1 ''forward'' = Some holder" "the_method holder = Some m"
      by (auto simp: method_at_def split: option.splits)
    let ?c = "Method_set_output_data_ptr R (mutable_data_ptr output_tensor)
                       (nbytes output_tensor) output_index m"
    from assms L' m h have r: "r = fst ?c"
      and M': "M' = M1\<lparr>methods := (methods M1)(''forward'' \<mapsto> holder\<lparr>the_method := Some (snd ?c)\<rparr>)\<rparr>"
      by (auto simp: set_output_data_ptr_def method_update_def split: prod.splits)
    from M' others have "\<forall>name. name \<noteq> ''forward'' \<longrightarrow> methods M' name = methods M name"
      by simp
    with L' Inr h r M' show ?thesis by simp
  qed
qed

text \<open>
  C9. \<^verbatim>\<open>set_output_data_ptr\<close> works on the method named \<open>forward\<close> only. Whenever it
  returns it has called \<^verbatim>\<open>load_method\<close> for \<open>forward\<close>; if that failed, its error is
  the result. Otherwise the result is what \<^verbatim>\<open>Method::set_output_data_ptr\<close> returns when
  called on the cached method of \<open>forward\<close> with the tensor's data pointer, the tensor's
  byte length and the given index, and the module afterwards is the module after
  \<^verbatim>\<open>load_method\<close> with that method as the call left it. The cache entries of all other
  names are as before the call. Conversely, it returns in both cases: with the error of a
  failed \<^verbatim>\<open>load_method\<close>, and with the result of the call on the cached method.
\<close>

theorem set_output_data_ptr_forward:
  fixes R :: "('d, 'p, 'm, 'v, 'a, 't) Runtime" and M :: "('d, 'p, 'm, 'a, 't) Module"
  shows "(set_output_data_ptr R output_tensor output_index M = Some (r, M') \<longrightarrow>
      (\<exists>rl M1. load_method R ''forward'' M = Some (rl, M1) \<and>
        (case rl of
           Inl e \<Rightarrow> r = Inl e \<and> M' = M1
         | Inr u \<Rightarrow>
             (\<exists>holder m. methods M1 ''forward'' = Some holder \<and> the_method holder = Some m \<and>
                r = fst (Method_set_output_data_ptr R (mutable_data_ptr output_tensor)
                           (nbytes output_tensor) output_index m) \<and>
                M' = M1\<lparr>methods := (methods M1)(''forward'' \<mapsto> holder\<lparr>the_method :=
                       Some (snd (Method_set_output_data_ptr R (mutable_data_ptr output_tensor)
                                    (nbytes output_tensor) output_index m))\<rparr>)\<rparr>)) \<and>
        (\<forall>name. name \<noteq> ''forward'' \<longrightarrow> methods M' name = methods M name))) \<and>
    (load_method R ''forward'' M = Some (Inl e, M1) \<longrightarrow>
       set_output_data_ptr R output_tensor output_index M = Some (Inl e, M1)) \<and>
    (load_method R ''forward'' M = Some (Ok, M1) \<and> methods M1 ''forward'' = Some holder \<and>
     the_method holder = Some m \<longrightarrow>
       set_output_data_ptr R output_tensor output_index M =
         Some (fst (Method_set_output_data_ptr R (mutable_data_ptr output_tensor)
                      (nbytes output_tensor) output_index m),
               M1\<lparr>methods := (methods M1)(''forward'' \<mapsto> holder\<lparr>the_method :=
                     Some (snd (Method_set_output_data_ptr R (mutable_data_ptr output_tensor)
                                  (nbytes output_tensor) output_index m))\<rparr>)\<rparr>))"
proof (intro conjI impI)
  assume "set_output_data_ptr R output_tensor output_index M = Some (r, M')"
  then show "\<exists>rl M1. load_method R ''forward'' M = Some (rl, M1) \<and>
        (case rl of
           Inl e \<Rightarrow> r = Inl e \<and> M' = M1
         | Inr u \<Rightarrow>
             (\<exists>holder m. methods M1 ''forward'' = Some holder \<and> the_method holder = Some m \<and>
                r = fst (Method_set_output_data_ptr R (mutable_data_ptr output_tensor)
                           (nbytes output_tensor) output_index m) \<and>
                M' = M1\<lparr>methods := (methods M1)(''forward'' \<mapsto> holder\<lparr>the_method :=
                       Some (snd (Method_set_output_data_ptr R (mutable_data_ptr output_tensor)
                                    (nbytes output_tensor) output_index m))\<rparr>)\<rparr>)) \<and>
        (\<forall>name. name \<noteq> ''forward'' \<longrightarrow> methods M' name = methods M name)"
    by (rule set_output_data_ptr_result)
next
  assume "load_method R ''forward'' M = Some (Inl e, M1)"
  then show "set_output_data_ptr R output_tensor output_index M = Some (Inl e, M1)"
    by (simp add: set_output_data_ptr_def)
next
  assume "load_method R ''forward'' M = Some (Ok, M1) \<and> methods M1 ''forward'' = Some holder \<and>
     the_method holder = Some m"
  then show "set_output_data_ptr R output_tensor output_index M =
         Some (fst (Method_set_output_data_ptr R (mutable_data_ptr output_tensor)
                      (nbytes output_tensor) output_index m),
               M1\<lparr>methods := (methods M1)(''forward'' \<mapsto> holder\<lparr>the_method :=
                     Some (snd (Method_set_output_data_ptr R (mutable_data_ptr output_tensor)
                                  (nbytes output_tensor) output_index m))\<rparr>)\<rparr>)"
    by (simp add: set_output_data_ptr_def method_at_def method_update_def split: prod.splits)
qed

theorem set_output_data_ptr_forward_witness:
  "map_option fst (set_output_data_ptr stub_runtime \<lparr>mutable_data_ptr = 4096, nbytes = 12\<rparr> 0
     stub_module) = Some Ok \<and>
   map_option (\<lambda>x. map_option output_ptrs (method_at ''forward'' (snd x)))
     (set_output_data_ptr stub_runtime \<lparr>mutable_data_ptr = 4096, nbytes = 12\<rparr> 0 stub_module) =
     Some (Some [Some (4096, 12), None]) \<and>
   (\<exists>rl M1. load_method stub_runtime ''forward'' stub_module = Some (rl, M1) \<and> rl = Ok)"
proof -
  let ?t = "\<lparr>mutable_data_ptr = 4096, nbytes = 12\<rparr>"
  let ?c = "set_output_data_ptr stub_runtime ?t 0 stub_module"
  have r1: "map_option fst ?c = Some Ok" by (simp add: ev set_output_data_ptr_def)
  then have e: "?c = Some (Ok, snd (the ?c))" by (cases ?c) auto
  have r2: "map_option (\<lambda>x. map_option output_ptrs (method_at ''forward'' (snd x))) ?c =
     Some (Some [Some (4096, 12), None])" by (simp add: ev set_output_data_ptr_def)
  have lm: "map_option fst (load_method stub_runtime ''forward'' stub_module) = Some Ok"
    by (simp add: ev)
  from set_output_data_ptr_forward[THEN conjunct1, THEN mp, OF e] obtain rl M1 where
    "load_method stub_runtime ''forward'' stub_module = Some (rl, M1)" by blast
  with lm have "load_method stub_runtime ''forward'' stub_module = Some (rl, M1) \<and> rl = Ok"
    by simp
  then have r3: "\<exists>rl M1. load_method stub_runtime ''forward'' stub_module = Some (rl, M1) \<and> rl = Ok"
    by blast
  from r1 r2 r3 show ?thesis by (intro conjI)
qed

section \<open>Claims about var_out\<close>

lemma size_t_pred_zero: "(num :: size_t) - 1 = 0 \<longleftrightarrow> num = 1"
  by auto

lemma concat_divisors:
  "set (concat (map snd (map (var_element K num denominator) ixs))) \<subseteq> {num, denominator}"
  by (induction ixs) (auto simp: var_element_def Let_def)

lemma length_concat_divisors:
  "length (concat (map snd (map (var_element K num denominator) ixs))) = 2 * length ixs"
  by (induction ixs) (auto simp: var_element_def Let_def)

lemma var_out_result:
  fixes K :: "('i, 'o) VarCall"
  assumes "var_out K unbiased = Some (out_data, divisors)"
  shows "length out_data = out_numel K \<and>
    (if get_reduced_dim_product K = 0 \<or> (unbiased \<and> get_reduced_dim_product K = 1)
     then divisors = [] \<and> out_data = replicate (out_numel K) (NAN K)
     else get_reduced_dim_product K \<noteq> 0 \<and>
          (if unbiased then get_reduced_dim_product K - 1 else get_reduced_dim_product K) \<noteq> 0 \<and>
          length divisors = 2 * out_numel K \<and>
          set divisors \<subseteq> {get_reduced_dim_product K,
                           if unbiased then get_reduced_dim_product K - 1
                           else get_reduced_dim_product K} \<and>
          0 \<notin> set divisors \<and>
          out_data = map (\<lambda>out_ix. fst (var_element K (get_reduced_dim_product K)
                        (if unbiased then get_reduced_dim_product K - 1
                         else get_reduced_dim_product K) out_ix)) [0..<out_numel K])"
proof -
  let ?num = "get_reduced_dim_product K"
  let ?den = "if unbiased then ?num - 1 else ?num"
  have guard: "(?num = 0 \<or> ?den = 0) = (?num = 0 \<or> (unbiased \<and> ?num = 1))"
    by (simp add: size_t_pred_zero)
  show ?thesis
  proof (cases "?num = 0 \<or> (unbiased \<and> ?num = 1)")
    case True
    with guard have g: "?num = 0 \<or> ?den = 0" by simp
    from assms g have "out_data = replicate (out_numel K) (NAN K)" "divisors = []"
      by (auto simp: var_out_def Let_def split: if_splits)
    with True show ?thesis by simp
  next
    case False
    with guard have g: "\<not> (?num = 0 \<or> ?den = 0)" by simp
    from assms g have o: "out_data = map fst (map (var_element K ?num ?den) [0..<out_numel K])"
      and d: "divisors = concat (map snd (map (var_element K ?num ?den) [0..<out_numel K]))"
      by (auto simp: var_out_def Let_def split: if_splits)
    have s: "set divisors \<subseteq> {?num, ?den}" unfolding d by (rule concat_divisors)
    with g have z: "0 \<notin> set divisors" by auto
    have "length divisors = 2 * length [0..<out_numel K]"
      unfolding d by (rule length_concat_divisors)
    then have l: "length divisors = 2 * out_numel K" by simp
    from o have o': "out_data = map (\<lambda>out_ix. fst (var_element K ?num ?den out_ix)) [0..<out_numel K]"
      by simp
    have len: "length out_data = out_numel K" by (simp add: o')
    from g have n0: "?num \<noteq> 0" and d0: "?den \<noteq> 0" by simp_all
    show ?thesis
      apply (subst if_not_P[OF False])
      apply (intro conjI)
            apply (rule len)
           apply (rule n0)
          apply (rule d0)
         apply (rule l)
        apply (rule s)
       apply (rule z)
      apply (rule o')
      done
  qed
qed

text \<open>
  C10. In \<^verbatim>\<open>var_out\<close> the two divisions, by the number of reduced elements \<open>num\<close> and
  by the denominator (\<open>num - 1\<close> when \<open>unbiased\<close>, else \<open>num\<close>), are guarded. Whenever the
  kernel returns: if \<open>num\<close> is zero, or \<open>unbiased\<close> holds and \<open>num\<close> is one, no division
  has been performed and every element of the output is NaN; otherwise \<open>num\<close> and the
  denominator are both nonzero, exactly two divisions per output element have been
  performed, and every divisor was one of these two, so none was zero. The kernel returns
  whenever its checks pass and both tensors have a floating point type.
\<close>

theorem var_out_divisions_guarded:
  fixes K :: "('i, 'o) VarCall"
  shows "(var_out K unbiased = Some (out_data, divisors) \<longrightarrow>
      length out_data = out_numel K \<and>
      (if get_reduced_dim_product K = 0 \<or> (unbiased \<and> get_reduced_dim_product K = 1)
       then divisors = [] \<and> out_data = replicate (out_numel K) (NAN K)
       else get_reduced_dim_product K \<noteq> 0 \<and>
            (if unbiased then get_reduced_dim_product K - 1 else get_reduced_dim_product K) \<noteq> 0 \<and>
            length divisors = 2 * out_numel K \<and>
            set divisors \<subseteq> {get_reduced_dim_product K,
                             if unbiased then get_reduced_dim_product K - 1
                             else get_reduced_dim_product K} \<and>
            0 \<notin> set divisors \<and>
            out_data = map (\<lambda>out_ix. fst (var_element K (get_reduced_dim_product K)
                          (if unbiased then get_reduced_dim_product K - 1
                           else get_reduced_dim_product K) out_ix)) [0..<out_numel K])) \<and>
    (check_preconditions K \<and> resize_reduction_out K = Ok \<and> in_is_float_type K \<and>
     out_is_float_type K \<longrightarrow> var_out K unbiased \<noteq> None)"
proof (intro conjI impI)
  assume "var_out K unbiased = Some (out_data, divisors)"
  then show "length out_data = out_numel K"
    by (rule var_out_result[THEN conjunct1])
next
  assume "var_out K unbiased = Some (out_data, divisors)"
  then show "if get_reduced_dim_product K = 0 \<or> (unbiased \<and> get_reduced_dim_product K = 1)
       then divisors = [] \<and> out_data = replicate (out_numel K) (NAN K)
       else get_reduced_dim_product K \<noteq> 0 \<and>
            (if unbiased then get_reduced_dim_product K - 1 else get_reduced_dim_product K) \<noteq> 0 \<and>
            length divisors = 2 * out_numel K \<and>
            set divisors \<subseteq> {get_reduced_dim_product K,
                             if unbiased then get_reduced_dim_product K - 1
                             else get_reduced_dim_product K} \<and>
            0 \<notin> set divisors \<and>
            out_data = map (\<lambda>out_ix. fst (var_element K (get_reduced_dim_product K)
                          (if unbiased then get_reduced_dim_product K - 1
                           else get_reduced_dim_product K) out_ix)) [0..<out_numel K]"
    by (rule var_out_result[THEN conjunct2])
next
  assume "check_preconditions K \<and> resize_reduction_out K = Ok \<and> in_is_float_type K \<and>
     out_is_float_type K"
  then show "var_out K unbiased \<noteq> None"
    by (simp add: var_out_def Let_def)
qed

theorem var_out_divisions_guarded_witness:
  "var_out (stub_var_call [1, 2, 3, 4]) True = Some ([Some (5 / 3)], [4, 3]) \<and>
   var_out (stub_var_call [5]) True = Some ([None], []) \<and>
   var_out (stub_var_call [5]) False = Some ([Some 0], [1, 1]) \<and>
   var_out (stub_var_call []) True = Some ([None], []) \<and>
   var_out (stub_var_call []) False = Some ([None], []) \<and>
   get_reduced_dim_product (stub_var_call [1, 2, 3, 4]) \<noteq> 0 \<and>
   get_reduced_dim_product (stub_var_call [1, 2, 3, 4]) - 1 \<noteq> 0 \<and>
   0 \<notin> set [4, 3 :: size_t]"
proof -
  have e1: "var_out (stub_var_call [1, 2, 3, 4]) True = Some ([Some (5 / 3)], [4, 3])"
    by (simp add: var_out_def stub_var_call_def var_element_def lift2_def)
  have e2: "var_out (stub_var_call [5]) True = Some ([None], [])"
    by (simp add: var_out_def stub_var_call_def var_element_def lift2_def)
  have e3: "var_out (stub_var_call [5]) False = Some ([Some 0], [1, 1])"
    by (simp add: var_out_def stub_var_call_def var_element_def lift2_def)
  have e4: "var_out (stub_var_call []) True = Some ([None], [])"
    by (simp add: var_out_def stub_var_call_def var_element_def lift2_def)
  have e5: "var_out (stub_var_call []) False = Some ([None], [])"
    by (simp add: var_out_def stub_var_call_def var_element_def lift2_def)
  have c: "\<not> (get_reduced_dim_product (stub_var_call [1, 2, 3, 4]) = 0 \<or>
      (True \<and> get_reduced_dim_product (stub_var_call [1, 2, 3, 4]) = 1))"
    by (simp add: stub_var_call_def)
  from var_out_divisions_guarded[THEN conjunct1, THEN mp, OF e1] c
  have "get_reduced_dim_product (stub_var_call [1, 2, 3, 4]) \<noteq> 0"
    "get_reduced_dim_product (stub_var_call [1, 2, 3, 4]) - 1 \<noteq> 0"
    "0 \<notin> set [4, 3 :: size_t]"
    by (simp_all add: stub_var_call_def)
  with e1 e2 e3 e4 e5 show ?thesis by (intro conjI)
qed

end
